theory Spec2Isabelle
  imports Complex_Main "HOL-Library.Word" "HOL-Library.Log_Nat"
begin

section \<open>Machine arithmetic of the C sources\<close>

text \<open>
  The sources are C (\<^verbatim>\<open>pmconfigd/BatteryTimeRemaining.c\<close>) and C++
  (\<^verbatim>\<open>AppleSmartBatteryManagerUserClient.cpp\<close>). An \<^verbatim>\<open>int\<close> is a 32-bit
  two's complement word, read with \<open>sint\<close>; its arithmetic wraps.
\<close>

type_synonym int32 = "32 word"

text \<open>\<^verbatim>\<open>abs()\<close> of \<^verbatim>\<open>stdlib.h\<close>: the negation wraps, so \<^verbatim>\<open>abs(INT_MIN)\<close> stays \<^verbatim>\<open>INT_MIN\<close>.\<close>

definition abs_c :: "int32 \<Rightarrow> int32" where
  "abs_c w = (if sint w < 0 then - w else w)"

subsection \<open>IEEE-754 binary64\<close>

text \<open>
  A \<^verbatim>\<open>double\<close> is a rational with a 53-bit significand, or an infinity, or NaN. Every
  arithmetic operation computes the exact result and rounds it to the nearest such
  rational, ties to the even significand (\<open>fl\<close>). The exponent is left unbounded: the
  operands of this program are converted 32-bit integers and clock readings, whose sums,
  products and quotients stay far inside the normal range of binary64. Signed zeros are
  not told apart; the only zero this program divides by is a converted \<^verbatim>\<open>int\<close>, which
  is \<open>+0.0\<close>.
\<close>

definition round_even :: "rat \<Rightarrow> int" where
  "round_even y = (let f = \<lfloor>y\<rfloor>; d = y - of_int f in
     if d < 1 / 2 then f else if 1 / 2 < d then f + 1 else if even f then f else f + 1)"

text \<open>The binary exponent of a positive rational: the greatest \<open>e\<close> with \<open>2 powi e \<le> x\<close>.\<close>

definition ilog2 :: "rat \<Rightarrow> int" where
  "ilog2 x = (if 1 \<le> x then bitlen \<lfloor>x\<rfloor> - 1 else - bitlen (\<lceil>1 / x\<rceil> - 1))"

definition fl :: "rat \<Rightarrow> rat" where
  "fl x = (if x = 0 then 0 else
     let e = ilog2 \<bar>x\<bar> - 52
     in sgn x * of_int (round_even (\<bar>x\<bar> / (2 powi e))) * (2 powi e))"

datatype double = Finite rat | PlusInf | MinusInf | NaN

text \<open>The conversion \<^verbatim>\<open>(double)i\<close> of an \<^verbatim>\<open>int\<close>.\<close>

definition i2d :: "int32 \<Rightarrow> double" where
  "i2d w = Finite (fl (of_int (sint w)))"

fun dadd :: "double \<Rightarrow> double \<Rightarrow> double" where
  "dadd (Finite x) (Finite y) = Finite (fl (x + y))"
| "dadd NaN _ = NaN"
| "dadd _ NaN = NaN"
| "dadd PlusInf MinusInf = NaN"
| "dadd MinusInf PlusInf = NaN"
| "dadd PlusInf _ = PlusInf"
| "dadd _ PlusInf = PlusInf"
| "dadd MinusInf _ = MinusInf"
| "dadd _ MinusInf = MinusInf"

definition dinf :: "bool \<Rightarrow> double" where
  "dinf negative = (if negative then MinusInf else PlusInf)"

fun dmul :: "double \<Rightarrow> double \<Rightarrow> double" where
  "dmul (Finite x) (Finite y) = Finite (fl (x * y))"
| "dmul NaN _ = NaN"
| "dmul _ NaN = NaN"
| "dmul PlusInf (Finite y) = (if y = 0 then NaN else dinf (y < 0))"
| "dmul MinusInf (Finite y) = (if y = 0 then NaN else dinf (0 < y))"
| "dmul (Finite x) PlusInf = (if x = 0 then NaN else dinf (x < 0))"
| "dmul (Finite x) MinusInf = (if x = 0 then NaN else dinf (0 < x))"
| "dmul PlusInf PlusInf = PlusInf"
| "dmul MinusInf MinusInf = PlusInf"
| "dmul PlusInf MinusInf = MinusInf"
| "dmul MinusInf PlusInf = MinusInf"

fun ddiv :: "double \<Rightarrow> double \<Rightarrow> double" where
  "ddiv (Finite x) (Finite y) =
     (if y = 0 then (if 0 < x then PlusInf else if x < 0 then MinusInf else NaN)
      else Finite (fl (x / y)))"
| "ddiv NaN _ = NaN"
| "ddiv _ NaN = NaN"
| "ddiv (Finite x) _ = Finite 0"
| "ddiv PlusInf (Finite y) = dinf (y < 0)"
| "ddiv MinusInf (Finite y) = dinf (0 \<le> y)"
| "ddiv _ _ = NaN"

text \<open>The comparisons \<^verbatim>\<open><\<close> and \<^verbatim>\<open><=\<close>; \<^verbatim>\<open>a > b\<close> is \<open>dlt b a\<close>. A NaN compares false.\<close>

fun dlt :: "double \<Rightarrow> double \<Rightarrow> bool" where
  "dlt (Finite x) (Finite y) = (x < y)"
| "dlt NaN _ = False"
| "dlt _ NaN = False"
| "dlt _ MinusInf = False"
| "dlt PlusInf _ = False"
| "dlt _ _ = True"

fun dle :: "double \<Rightarrow> double \<Rightarrow> bool" where
  "dle (Finite x) (Finite y) = (x \<le> y)"
| "dle NaN _ = False"
| "dle _ NaN = False"
| "dle MinusInf _ = True"
| "dle _ PlusInf = True"
| "dle _ _ = False"

text \<open>
  What the conversions back to \<^verbatim>\<open>int\<close> yield when the value is not representable is
  undefined in C and differs between processors; the host supplies it. The host also
  answers the one hardware query of the daemon, the \<^verbatim>\<open>'BALG'\<close> key of the system
  management controller.
\<close>

record host =
  double_to_int_undefined :: "double \<Rightarrow> int32"
  lround_to_int_undefined :: "double \<Rightarrow> int32"
  smc_has_BALG :: bool

definition in_int32 :: "int \<Rightarrow> bool" where
  "in_int32 i = (- (2 ^ 31) \<le> i \<and> i < 2 ^ 31)"

definition trunc :: "rat \<Rightarrow> int" where
  "trunc q = (if 0 \<le> q then \<lfloor>q\<rfloor> else \<lceil>q\<rceil>)"

text \<open>Storing a \<^verbatim>\<open>double\<close> in an \<^verbatim>\<open>int\<close>: truncation towards zero.\<close>

definition d2i :: "host \<Rightarrow> double \<Rightarrow> int32" where
  "d2i h d = (case d of
     Finite q \<Rightarrow> if in_int32 (trunc q) then word_of_int (trunc q) else double_to_int_undefined h d
   | _ \<Rightarrow> double_to_int_undefined h d)"

text \<open>\<^verbatim>\<open>lround\<close> rounds to the nearest integer, halves away from zero.\<close>

definition round_half_away :: "rat \<Rightarrow> int" where
  "round_half_away q = (if 0 \<le> q then \<lfloor>q + 1 / 2\<rfloor> else - \<lfloor>- q + 1 / 2\<rfloor>)"

definition lround_int :: "host \<Rightarrow> double \<Rightarrow> int32" where
  "lround_int h d = (case d of
     Finite q \<Rightarrow> if in_int32 (round_half_away q) then word_of_int (round_half_away q)
                 else lround_to_int_undefined h d
   | _ \<Rightarrow> lround_to_int_undefined h d)"

section \<open>The battery daemon: \<^verbatim>\<open>pmconfigd/BatteryTimeRemaining.c\<close>\<close>

subsection \<open>Data\<close>

text \<open>
  Modelled from the spec: the declaration of \<^verbatim>\<open>IOPMBattery\<close> (\<^verbatim>\<open>PrivateLib.h\<close>) is not
  among the sources. The record has the fields that \<^verbatim>\<open>BatteryTimeRemaining.c\<close> reads and
  writes, which are the BatteryReading and BatteryDerived items of the spec: flags as
  \<open>bool\<close>, quantities as \<^verbatim>\<open>int\<close>, optional strings as \<open>string option\<close> (\<open>None\<close> is
  the \<^verbatim>\<open>NULL\<close> pointer). \<open>properties\<close> lists the keys of the battery's descriptor
  dictionary.
\<close>

record IOPMBattery =
  properties :: "string list"
  externalConnected :: bool
  isCharging :: bool
  isPresent :: bool
  markedNeedsReplacement :: bool
  currentCap :: int32
  maxCap :: int32
  designCap :: int32
  avgAmperage :: int32
  instantAmperage :: int32
  cycleCount :: int32
  hwAverageTR :: int32
  swCalculatedTR :: int32
  invalidWakeSecs :: int32
  failureDetected :: "string option"
  chargeStatus :: "string option"
  name :: "string option"
  dynamicStoreKey :: string

text \<open>
  Modelled from the spec: \<^verbatim>\<open>_batteryHas\<close> (\<^verbatim>\<open>PrivateLib.c\<close>) is not among the sources;
  the spec calls it a capability flag saying whether the battery reports a reading. Here the
  battery has a property when its descriptor dictionary has the key.
\<close>

definition batteryHas :: "IOPMBattery \<Rightarrow> string \<Rightarrow> bool" where
  "batteryHas b property = (property \<in> set (properties b))"

text \<open>
  The key and value strings of the IOKit headers, which are not among the sources either.
  No theorem below depends on their spelling.
\<close>

definition kIOPMPSTimeRemainingKey :: string where "kIOPMPSTimeRemainingKey = ''TimeRemaining''"
definition kIOPMPSErrorConditionKey :: string where "kIOPMPSErrorConditionKey = ''ErrorCondition''"
definition kIOPMPSMaxCapacityKey :: string where "kIOPMPSMaxCapacityKey = ''MaxCapacity''"
definition kIOPMPSDesignCapacityKey :: string where "kIOPMPSDesignCapacityKey = ''DesignCapacity''"
definition kIOPSInternalType :: string where "kIOPSInternalType = ''Internal''"
definition kIOPSACPowerValue :: string where "kIOPSACPowerValue = ''AC Power''"
definition kIOPSBatteryPowerValue :: string where "kIOPSBatteryPowerValue = ''Battery Power''"

definition kBatteryPermFailureString :: string where
  "kBatteryPermFailureString = ''Permanent Battery Failure''"

definition kSmartBattReserve_mAh :: double where
  "kSmartBattReserve_mAh = Finite 200"

definition kMaxBattMinutes :: int32 where
  "kMaxBattMinutes = 600"

datatype health_value = kIOPSPoorValue | kIOPSFairValue | kIOPSGoodValue

text \<open>
  The dictionary that \<^verbatim>\<open>_packageBatteryInfo\<close> builds for one battery, a field for each
  key it can set. A key that is set only on a condition is a \<open>bool\<close> (set to true or
  absent) or an \<open>option\<close>. \<^verbatim>\<open>CFEqual\<close> on two dictionaries is equality of records.
\<close>

record snapshot =
  Battery_Provides_Time_Remaining :: bool
  Waiting_For_Time_Remaining_Estimates :: bool
  Failure :: "string option"
  ChargeStatus :: "string option"
  Transport_Type :: string
  Power_Source_State :: string
  Max_Capacity :: int32
  Current_Capacity :: int32
  Is_Present :: bool
  Is_Charging :: bool
  Time_to_Full_Charge :: int32
  Time_to_Empty :: int32
  BatteryHealth :: "health_value option"
  HealthConfidence :: "health_value option"
  Name :: "string option"

text \<open>
  The static variables of the file and of \<^verbatim>\<open>BatteryTimeRemainingBatteriesHaveChanged\<close>.
  A pending run loop timer is its fire date. \<open>store\<close> is the sequence of
  \<^verbatim>\<open>SCDynamicStoreSetValue\<close> calls made so far, each a key and a dictionary.
\<close>

record pm_globals =
  estimatesInvalidUntil :: double
  useBatteryTimeEstimate :: bool
  ignoringTimeRemainingEstimates :: bool
  timeSettledTimer :: "double option"
  lastExternal :: bool
  lastIsPresent :: bool
  old_battery :: "snapshot option list option"
  store :: "(string \<times> snapshot) list"

definition initial_globals :: pm_globals where
  "initial_globals = \<lparr>estimatesInvalidUntil = Finite 0, useBatteryTimeEstimate = False,
     ignoringTimeRemainingEstimates = False, timeSettledTimer = None, lastExternal = False,
     lastIsPresent = False, old_battery = None, store = []\<rparr>"

subsection \<open>Discontinuities\<close>

text \<open>
  \<open>now\<close> is what \<^verbatim>\<open>CFAbsoluteTimeGetCurrent()\<close> returns, \<open>b\<close> the array \<^verbatim>\<open>_batteries()\<close>.
  Replacing the timer invalidates the one that was pending.
\<close>

definition discontinuityOccurred :: "rat \<Rightarrow> IOPMBattery list \<Rightarrow> pm_globals \<Rightarrow> pm_globals" where
  "discontinuityOccurred now b g =
     (case b of
        [] \<Rightarrow> g
      | b0 # _ \<Rightarrow>
          let lastDiscontinuity = Finite now;
              until = dadd lastDiscontinuity (i2d (invalidWakeSecs b0))
          in g\<lparr>estimatesInvalidUntil := until,
                ignoringTimeRemainingEstimates := True,
                timeSettledTimer := Some until\<rparr>)"

definition BatteryTimeRemainingSleepWakeNotification ::
    "bool \<Rightarrow> rat \<Rightarrow> IOPMBattery list \<Rightarrow> pm_globals \<Rightarrow> pm_globals" where
  "BatteryTimeRemainingSleepWakeNotification systemWillPowerOn now b g =
     (if systemWillPowerOn \<and> b \<noteq> [] then discontinuityOccurred now b g else g)"

subsection \<open>Time remaining\<close>

definition shouldTrustBatteryTimeEstimate :: "host \<Rightarrow> IOPMBattery \<Rightarrow> bool" where
  "shouldTrustBatteryTimeEstimate h b =
     (let keyFound = smc_has_BALG h in keyFound \<and> batteryHas b kIOPMPSTimeRemainingKey)"

text \<open>The bounds on the average current, \<open>(lowerAmperageBound, upperAmperageBound)\<close>.\<close>

definition amperageBounds :: "IOPMBattery \<Rightarrow> double \<times> double" where
  "amperageBounds b =
     (let absValInstantCurrent = i2d (abs_c (instantAmperage b))
      in if batteryHas b ''InstantAmperage''
         then (dmul absValInstantCurrent (Finite (1 / 2)), dmul absValInstantCurrent (Finite 2))
         else (Finite 5, Finite 15000))"

text \<open>The condition under which the loop stores \<open>-1\<close> and goes on to the next battery.\<close>

definition estimateInvalid :: "pm_globals \<Rightarrow> IOPMBattery \<Rightarrow> bool" where
  "estimateInvalid g b =
     (let absValAvgCurrent = i2d (abs_c (avgAmperage b));
          (lowerAmperageBound, upperAmperageBound) = amperageBounds b
      in avgAmperage b = 0
         \<or> dlt absValAvgCurrent lowerAmperageBound
         \<or> dlt upperAmperageBound absValAvgCurrent
         \<or> ignoringTimeRemainingEstimates g)"

text \<open>The value first stored in \<open>swCalculatedTR\<close> when the estimate is not rejected.\<close>

definition calculatedTR :: "host \<Rightarrow> pm_globals \<Rightarrow> IOPMBattery \<Rightarrow> int32" where
  "calculatedTR h g b =
     (if useBatteryTimeEstimate g then hwAverageTR b
      else if isCharging b
      then d2i h (dmul (Finite 60) (ddiv (i2d (maxCap b - currentCap b)) (i2d (avgAmperage b))))
      else d2i h (dmul (Finite (- 60)) (ddiv (i2d (currentCap b)) (i2d (avgAmperage b)))))"

definition capTR :: "int32 \<Rightarrow> int32" where
  "capTR tr =
     (let tr1 = (if sint tr < 0 then - 1 else tr)
      in if sint kMaxBattMinutes < sint tr1 then kMaxBattMinutes else tr1)"

text \<open>The body of the loop of \<^verbatim>\<open>_populateTimeRemaining\<close>, for the battery \<open>b\<close>.\<close>

definition populateBattery :: "host \<Rightarrow> pm_globals \<Rightarrow> IOPMBattery \<Rightarrow> IOPMBattery" where
  "populateBattery h g b =
     (if estimateInvalid g b then b\<lparr>swCalculatedTR := - 1\<rparr>
      else b\<lparr>swCalculatedTR := capTR (calculatedTR h g b)\<rparr>)"

definition populateTimeRemaining :: "host \<Rightarrow> pm_globals \<Rightarrow> IOPMBattery list \<Rightarrow> IOPMBattery list" where
  "populateTimeRemaining h g batts = map (populateBattery h g) batts"

subsection \<open>Health and confidence\<close>

text \<open>A decimal literal of the source that is not a binary fraction is the nearest double.\<close>

definition dconst :: "rat \<Rightarrow> double" where
  "dconst q = Finite (fl q)"

text \<open>
  \<^verbatim>\<open>_setBatteryHealthConfidence\<close> writes into the dictionary and into the battery's latch.
  The result is \<open>None\<close> where the code passes a \<^verbatim>\<open>NULL\<close> \<open>failureDetected\<close> to
  \<^verbatim>\<open>CFEqual\<close>, which does not return. The caller always passes a dictionary and a
  battery, so the first test of the function never holds.
\<close>

definition setBatteryHealthConfidence ::
    "snapshot \<Rightarrow> IOPMBattery \<Rightarrow> (snapshot \<times> IOPMBattery) option" where
  "setBatteryHealthConfidence outDict b =
     (if \<not> isPresent b then Some (outDict, b)
      else if batteryHas b kIOPMPSErrorConditionKey \<and> failureDetected b = None then None
      else if batteryHas b kIOPMPSErrorConditionKey
              \<and> failureDetected b = Some kBatteryPermFailureString
      then Some (outDict\<lparr>BatteryHealth := Some kIOPSPoorValue,
                         HealthConfidence := Some kIOPSGoodValue\<rparr>, b)
      else if batteryHas b kIOPMPSMaxCapacityKey \<and> batteryHas b kIOPMPSDesignCapacityKey
      then
        let ratio = ddiv (dadd (i2d (maxCap b)) kSmartBattReserve_mAh) (i2d (designCap b));
            (health, b') =
              (if markedNeedsReplacement b
               then (if dle ratio (dconst (83 / 100)) \<and> sint (cycleCount b) < 300
                     then (kIOPSFairValue, b)
                     else (kIOPSGoodValue, b\<lparr>markedNeedsReplacement := False\<rparr>))
               else (if dle ratio (dconst (80 / 100)) \<and> sint (cycleCount b) < 300
                     then (kIOPSFairValue, b\<lparr>markedNeedsReplacement := True\<rparr>)
                     else (kIOPSGoodValue, b)))
        in Some (outDict\<lparr>BatteryHealth := Some health,
                         HealthConfidence := Some kIOPSGoodValue\<rparr>, b')
      else Some (outDict, b))"

text \<open>The batteries at which \<^verbatim>\<open>_setBatteryHealthConfidence\<close> does not return.\<close>

definition healthStops :: "IOPMBattery \<Rightarrow> bool" where
  "healthStops b =
     (isPresent b \<and> batteryHas b kIOPMPSErrorConditionKey \<and> failureDetected b = None)"

subsection \<open>Packaging\<close>

text \<open>\<open>(set_capacity, set_charge)\<close>, the two percentages.\<close>

definition capacityPercentages :: "host \<Rightarrow> IOPMBattery \<Rightarrow> int32 \<times> int32" where
  "capacityPercentages h b =
     (if maxCap b \<noteq> 0
      then
        let set_capacity = 100;
            set_charge = lround_int h (ddiv (dmul (i2d (currentCap b)) (Finite 100)) (i2d (maxCap b)))
        in (set_capacity, if set_charge = 100 \<and> isCharging b then 99 else set_charge)
      else (0, 0))"

text \<open>The charging flag, the time to full charge and the time to empty.\<close>

definition chargingAndTimes :: "IOPMBattery \<Rightarrow> bool \<times> int32 \<times> int32" where
  "chargingAndTimes b =
     (let minutes = swCalculatedTR b
      in if \<not> isPresent b then (False, 0, 0)
         else if minutes = - 1 then (isCharging b, - 1, - 1)
         else if isCharging b then (True, minutes, 0)
         else if externalConnected b then (False, 0, 0)
         else (False, 0, minutes))"

text \<open>
  The body of the loop of \<^verbatim>\<open>_packageBatteryInfo\<close>. Allocations are taken to succeed, so
  every battery gets a dictionary.
\<close>

definition packageBattery :: "host \<Rightarrow> pm_globals \<Rightarrow> IOPMBattery \<Rightarrow> (snapshot \<times> IOPMBattery) option" where
  "packageBattery h g b =
     (let (set_capacity, set_charge) = capacityPercentages h b;
          (charging, toFull, toEmpty) = chargingAndTimes b;
          mutDict = \<lparr>Battery_Provides_Time_Remaining = useBatteryTimeEstimate g,
                     Waiting_For_Time_Remaining_Estimates = ignoringTimeRemainingEstimates g,
                     Failure = failureDetected b,
                     ChargeStatus = chargeStatus b,
                     Transport_Type = kIOPSInternalType,
                     Power_Source_State =
                       (if externalConnected b then kIOPSACPowerValue else kIOPSBatteryPowerValue),
                     Max_Capacity = set_capacity,
                     Current_Capacity = set_charge,
                     Is_Present = isPresent b,
                     Is_Charging = charging,
                     Time_to_Full_Charge = toFull,
                     Time_to_Empty = toEmpty,
                     BatteryHealth = None,
                     HealthConfidence = None,
                     Name = None\<rparr>
      in case setBatteryHealthConfidence mutDict b of
           None \<Rightarrow> None
         | Some (mutDict', b') \<Rightarrow>
             Some (mutDict'\<lparr>Name := Some (case name b of Some n \<Rightarrow> n | None \<Rightarrow> ''Unnamed'')\<rparr>, b'))"

fun packageBatteryInfo ::
    "host \<Rightarrow> pm_globals \<Rightarrow> IOPMBattery list \<Rightarrow> (snapshot option list \<times> IOPMBattery list) option" where
  "packageBatteryInfo h g [] = Some ([], [])"
| "packageBatteryInfo h g (b # batts) =
     (case packageBattery h g b of
        None \<Rightarrow> None
      | Some (mutDict, b') \<Rightarrow>
          (case packageBatteryInfo h g batts of
             None \<Rightarrow> None
           | Some (ret, batts') \<Rightarrow> Some (Some mutDict # ret, b' # batts')))"

subsection \<open>Publishing\<close>

text \<open>
  One round of the publishing loop of \<^verbatim>\<open>BatteryTimeRemainingBatteriesHaveChanged\<close>, at
  index \<open>i\<close>. The state is the sequence of store calls and the array \<open>old_battery\<close>.
\<close>

definition publishBattery ::
    "IOPMBattery list \<Rightarrow> snapshot option list \<Rightarrow>
     (string \<times> snapshot) list \<times> snapshot option list \<Rightarrow> nat \<Rightarrow>
     (string \<times> snapshot) list \<times> snapshot option list" where
  "publishBattery batteries result st i =
     (case st of (calls, old) \<Rightarrow>
        (case result ! i of
           None \<Rightarrow> (calls, old)
         | Some r \<Rightarrow>
             ((if old ! i = None then calls @ [(dynamicStoreKey (batteries ! i), r)]
               else if old ! i \<noteq> Some r then calls @ [(dynamicStoreKey (batteries ! i), r)]
               else calls),
              old[i := Some r])))"

definition publishChanged ::
    "IOPMBattery list \<Rightarrow> snapshot option list \<Rightarrow>
     (string \<times> snapshot) list \<times> snapshot option list \<Rightarrow>
     (string \<times> snapshot) list \<times> snapshot option list" where
  "publishChanged batteries result st =
     foldl (publishBattery batteries result) st [0..<length batteries]"

subsection \<open>The pipeline\<close>

text \<open>
  \<open>None\<close> is a run that does not return: the array has no first battery to read, or
  packaging stops in \<^verbatim>\<open>CFEqual\<close>. The result is the battery array and the globals after
  the run.
\<close>

definition BatteryTimeRemainingBatteriesHaveChanged ::
    "host \<Rightarrow> rat \<Rightarrow> IOPMBattery list \<Rightarrow> pm_globals \<Rightarrow> (IOPMBattery list \<times> pm_globals) option" where
  "BatteryTimeRemainingBatteriesHaveChanged h now batteries g =
     (case batteries of
        [] \<Rightarrow> None
      | b # _ \<Rightarrow>
          let batCount = length batteries;
              old0 = (case old_battery g of None \<Rightarrow> replicate batCount None | Some old \<Rightarrow> old);
              external = externalConnected b;
              g1 = (if lastExternal g \<noteq> external then discontinuityOccurred now batteries g else g);
              g2 = g1\<lparr>lastExternal := external\<rparr>;
              present = isPresent b;
              g3 = (if present \<and> \<not> lastIsPresent g2
                    then g2\<lparr>useBatteryTimeEstimate := shouldTrustBatteryTimeEstimate h b\<rparr>
                    else g2);
              g4 = g3\<lparr>lastIsPresent := present\<rparr>;
              batteries1 = populateTimeRemaining h g4 batteries
          in case packageBatteryInfo h g4 batteries1 of
               None \<Rightarrow> None
             | Some (result, batteries2) \<Rightarrow>
                 let (calls, old) = publishChanged batteries2 result (store g4, old0)
                 in Some (batteries2, g4\<lparr>old_battery := Some old, store := calls\<rparr>))"

text \<open>The callback of the timer, fired at \<open>now\<close>.\<close>

definition timeRemainingMaybeValid ::
    "host \<Rightarrow> rat \<Rightarrow> IOPMBattery list \<Rightarrow> pm_globals \<Rightarrow> (IOPMBattery list \<times> pm_globals) option" where
  "timeRemainingMaybeValid h now batteries g =
     BatteryTimeRemainingBatteriesHaveChanged h now batteries
       (g\<lparr>timeSettledTimer := None, ignoringTimeRemainingEstimates := False\<rparr>)"

subsection \<open>The clock and the timer\<close>

text \<open>
  The states the daemon can reach, with the clock. Time passes while it stays before the
  fire date of a pending timer; the timer fires at its fire date, which moves the clock
  there and runs the callback at once. A discontinuity (a wake from sleep) and a run of
  the pipeline (new telemetry) happen at the current clock reading, on whatever battery
  array \<open>ok\<close> admits. Clock readings are not negative, as \<^verbatim>\<open>_estimatesInvalidUntil\<close>
  starts at 0.0, and stay below \<open>2 ^ 52\<close> seconds, where a double still resolves single
  seconds.
\<close>

definition valid_clock :: "rat \<Rightarrow> bool" where
  "valid_clock t = (0 \<le> t \<and> t \<le> 2 ^ 52)"

inductive reachable :: "(IOPMBattery list \<Rightarrow> bool) \<Rightarrow> host \<Rightarrow> rat \<Rightarrow> pm_globals \<Rightarrow> bool"
  for ok :: "IOPMBattery list \<Rightarrow> bool" and h :: host
where
  start: "valid_clock t \<Longrightarrow> reachable ok h t initial_globals"
| pass: "reachable ok h t g \<Longrightarrow> t \<le> t' \<Longrightarrow> valid_clock t' \<Longrightarrow>
         (case timeSettledTimer g of None \<Rightarrow> True | Some d \<Rightarrow> dlt (Finite t') d) \<Longrightarrow>
         reachable ok h t' g"
| discontinuity: "reachable ok h t g \<Longrightarrow> ok b \<Longrightarrow>
         reachable ok h t (discontinuityOccurred t b g)"
| changed: "reachable ok h t g \<Longrightarrow> ok b \<Longrightarrow>
         BatteryTimeRemainingBatteriesHaveChanged h t b g = Some (b', g') \<Longrightarrow>
         reachable ok h t g'"
| fire: "reachable ok h t g \<Longrightarrow> timeSettledTimer g = Some (Finite d) \<Longrightarrow> t \<le> d \<Longrightarrow>
         valid_clock d \<Longrightarrow> ok b \<Longrightarrow>
         timeRemainingMaybeValid h d b g = Some (b', g') \<Longrightarrow>
         reachable ok h d g'"

text \<open>Every battery array, and the arrays whose primary battery asks for a positive wait.\<close>

definition anyBatteries :: "IOPMBattery list \<Rightarrow> bool" where
  "anyBatteries b = True"

definition positiveWakeSecs :: "IOPMBattery list \<Rightarrow> bool" where
  "positiveWakeSecs b = (case b of [] \<Rightarrow> True | b0 # _ \<Rightarrow> 0 < sint (invalidWakeSecs b0))"

text \<open>
  What holds of the three timer variables in every reachable state, when the waits are
  positive: the deadline is a finite double; while estimates are ignored it lies ahead and
  the timer is pending for it; otherwise it has passed and no timer is pending.
\<close>

definition timerConsistent :: "rat \<Rightarrow> pm_globals \<Rightarrow> bool" where
  "timerConsistent t g =
     (\<exists>u. estimatesInvalidUntil g = Finite u
        \<and> (if ignoringTimeRemainingEstimates g
            then t < u \<and> timeSettledTimer g = Some (Finite u)
            else u \<le> t \<and> timeSettledTimer g = None))"

section \<open>The user client: \<^verbatim>\<open>AppleSmartBatteryManagerUserClient.cpp\<close>\<close>

text \<open>
  \<^verbatim>\<open>IOReturn\<close> is an \<^verbatim>\<open>int\<close>. The three codes are those of IOKit's \<^verbatim>\<open>IOReturn.h\<close>, which
  is not among the sources.
\<close>

type_synonym IOReturn = int32

definition kIOReturnSuccess :: IOReturn where "kIOReturnSuccess = 0"
definition kIOReturnNotPrivileged :: IOReturn where "kIOReturnNotPrivileged = 0xE00002C1"
definition kIOReturnBadArgument :: IOReturn where "kIOReturnBadArgument = 0xE00002C2"

text \<open>
  The control surface is the owner, an \<^verbatim>\<open>AppleSmartBatteryManager\<close>; its two operations
  are given by the status each returns. \<open>clientHasPrivilege\<close> is the answer of the kernel
  for the owning task and the administrator privilege. A call of a method yields its
  \<^verbatim>\<open>IOReturn\<close>, the value stored in \<^verbatim>\<open>*return_code\<close>, and the calls it made, in order.
\<close>

record AppleSmartBatteryManager =
  disableInflow :: "int32 \<Rightarrow> IOReturn"
  inhibitCharging :: "int32 \<Rightarrow> IOReturn"

record AppleSmartBatteryManagerUserClient =
  fOwner :: "AppleSmartBatteryManager option"
  clientHasPrivilege :: IOReturn

datatype kernel_call = ClientHasPrivilege | DisableInflow int32 | InhibitCharging int32

definition secureInflowDisable ::
    "AppleSmartBatteryManagerUserClient \<Rightarrow> int32 \<Rightarrow> IOReturn \<times> IOReturn \<times> kernel_call list" where
  "secureInflowDisable uc level =
     (if \<not> (level = 0 \<or> level = 1) then (kIOReturnSuccess, kIOReturnBadArgument, [])
      else
        let ret = clientHasPrivilege uc;
            admin_priv = (kIOReturnSuccess = ret)
        in case (admin_priv, fOwner uc) of
             (True, Some owner) \<Rightarrow>
               (kIOReturnSuccess, disableInflow owner level, [ClientHasPrivilege, DisableInflow level])
           | _ \<Rightarrow> (kIOReturnSuccess, kIOReturnNotPrivileged, [ClientHasPrivilege]))"

definition secureChargeInhibit ::
    "AppleSmartBatteryManagerUserClient \<Rightarrow> int32 \<Rightarrow> IOReturn \<times> IOReturn \<times> kernel_call list" where
  "secureChargeInhibit uc level =
     (if \<not> (level = 0 \<or> level = 1) then (kIOReturnSuccess, kIOReturnBadArgument, [])
      else
        let ret = clientHasPrivilege uc;
            admin_priv = (kIOReturnSuccess = ret)
        in case (admin_priv, fOwner uc) of
             (True, Some owner) \<Rightarrow>
               (kIOReturnSuccess, inhibitCharging owner level, [ClientHasPrivilege, InhibitCharging level])
           | _ \<Rightarrow> (kIOReturnSuccess, kIOReturnNotPrivileged, [ClientHasPrivilege]))"

text \<open>The calls of a trace that reach the control surface.\<close>

fun controlSurfaceCall :: "kernel_call \<Rightarrow> bool" where
  "controlSurfaceCall ClientHasPrivilege = False"
| "controlSurfaceCall (DisableInflow _) = True"
| "controlSurfaceCall (InhibitCharging _) = True"

section \<open>The statements of the spec\<close>

text \<open>
  The spec states the estimator over exact numbers. These are its bounds, its rejection
  test and its formula for the minutes, written after its words, to be compared with what
  the code computes. The difference \<open>maxCap - currentCap\<close> is the one of \<^verbatim>\<open>int\<close>.
\<close>

definition spec_amperageBounds :: "IOPMBattery \<Rightarrow> rat \<times> rat" where
  "spec_amperageBounds b =
     (if batteryHas b ''InstantAmperage''
      then (of_int \<bar>sint (instantAmperage b)\<bar> / 2, 2 * of_int \<bar>sint (instantAmperage b)\<bar>)
      else (5, 15000))"

definition spec_rejects :: "pm_globals \<Rightarrow> IOPMBattery \<Rightarrow> bool" where
  "spec_rejects g b =
     (avgAmperage b = 0
      \<or> of_int \<bar>sint (avgAmperage b)\<bar> < fst (spec_amperageBounds b)
      \<or> snd (spec_amperageBounds b) < of_int \<bar>sint (avgAmperage b)\<bar>
      \<or> ignoringTimeRemainingEstimates g)"

definition spec_minutes :: "IOPMBattery \<Rightarrow> rat" where
  "spec_minutes b =
     (if isCharging b
      then 60 * of_int (sint (maxCap b - currentCap b)) / of_int (sint (avgAmperage b))
      else - 60 * of_int (sint (currentCap b)) / of_int (sint (avgAmperage b)))"

text \<open>
  The minutes as the code evaluates them: the quotient first, then the product, each
  rounded to a double.
\<close>

definition double_minutes :: "IOPMBattery \<Rightarrow> rat" where
  "double_minutes b =
     (if isCharging b
      then fl (60 * fl (of_int (sint (maxCap b - currentCap b)) / of_int (sint (avgAmperage b))))
      else fl (- 60 * fl (of_int (sint (currentCap b)) / of_int (sint (avgAmperage b)))))"

text \<open>
  The ratio of the health classifier, and a battery that reports no permanent failure: it
  has no error condition, or its failure string is another one.
\<close>

definition spec_ratio :: "IOPMBattery \<Rightarrow> rat" where
  "spec_ratio b = (of_int (sint (maxCap b)) + 200) / of_int (sint (designCap b))"

definition noPermanentFailure :: "IOPMBattery \<Rightarrow> bool" where
  "noPermanentFailure b =
     (\<not> batteryHas b kIOPMPSErrorConditionKey
      \<or> (case failureDetected b of None \<Rightarrow> False | Some s \<Rightarrow> s \<noteq> kBatteryPermFailureString))"

text \<open>The percentage of the spec: the quotient rounded to the nearest integer.\<close>

definition spec_percent :: "IOPMBattery \<Rightarrow> int" where
  "spec_percent b =
     round_half_away (of_int (sint (currentCap b)) * 100 / of_int (sint (maxCap b)))"

text \<open>
  The current-capacity percentage of the spec: 0 without a maximum capacity; otherwise the
  rounded quotient as an \<^verbatim>\<open>int\<close>, and 99 in place of 100 while the battery charges.
  Where the rounded quotient is no \<^verbatim>\<open>int\<close>, C leaves the result of \<^verbatim>\<open>lround\<close> to the
  host.
\<close>

definition spec_current_percent :: "host \<Rightarrow> IOPMBattery \<Rightarrow> int32" where
  "spec_current_percent h b =
     (if maxCap b = 0 then 0
      else
        let r = spec_percent b;
            pct = (if in_int32 r then word_of_int r
                   else lround_to_int_undefined h
                          (Finite (fl (of_int (sint (currentCap b) * 100) / of_int (sint (maxCap b))))))
        in if pct = 100 \<and> isCharging b then 99 else pct)"



definition spec_retained :: "snapshot option list \<Rightarrow> snapshot option list \<Rightarrow> snapshot option list" where
  "spec_retained result old =
     map (\<lambda>i. case result ! i of None \<Rightarrow> old ! i | Some r \<Rightarrow> Some r) [0..<length old]"

section \<open>Sample inputs\<close>

text \<open>
  A host that answers an undefined conversion with \<^verbatim>\<open>INT_MIN\<close> and has no \<^verbatim>\<open>'BALG'\<close>
  key, and a battery discharging at half an ampere.
\<close>

definition demo_host :: host where
  "demo_host = \<lparr>double_to_int_undefined = (\<lambda>d. - 2147483648),
                 lround_to_int_undefined = (\<lambda>d. - 2147483648),
                 smc_has_BALG = False\<rparr>"

definition demo_battery :: IOPMBattery where
  "demo_battery = \<lparr>properties = [''InstantAmperage'', ''MaxCapacity'', ''DesignCapacity''],
     externalConnected = False, isCharging = False, isPresent = True,
     markedNeedsReplacement = False, currentCap = 4100, maxCap = 5000, designCap = 5500,
     avgAmperage = - 500, instantAmperage = - 480, cycleCount = 120, hwAverageTR = 0,
     swCalculatedTR = 0, invalidWakeSecs = 30, failureDetected = None, chargeStatus = None,
     name = None, dynamicStoreKey = ''InternalBattery-0''\<rparr>"

text \<open>The same battery on external power, charging at 0.7 A.\<close>

definition charging_battery :: IOPMBattery where
  "charging_battery = demo_battery\<lparr>externalConnected := True, isCharging := True,
     avgAmperage := 700, instantAmperage := 650\<rparr>"

text \<open>The charging battery at 99 of 100 mAh, and at 100 of 100 mAh.\<close>

definition nearly_full_battery :: IOPMBattery where
  "nearly_full_battery = charging_battery\<lparr>currentCap := 99, maxCap := 100\<rparr>"

definition full_battery :: IOPMBattery where
  "full_battery = charging_battery\<lparr>currentCap := 100, maxCap := 100\<rparr>"

text \<open>A control surface that accepts every level, and a client without the privilege.\<close>

definition demo_manager :: AppleSmartBatteryManager where
  "demo_manager = \<lparr>disableInflow = (\<lambda>level. kIOReturnSuccess),
                    inhibitCharging = (\<lambda>level. kIOReturnSuccess)\<rparr>"

definition demo_client :: AppleSmartBatteryManagerUserClient where
  "demo_client = \<lparr>fOwner = Some demo_manager, clientHasPrivilege = kIOReturnNotPrivileged\<rparr>"

text \<open>
  A dictionary without health keys; a battery at 9/11 of its design capacity, between the
  two thresholds; and a battery that reports a permanent failure.
\<close>

definition blank_snapshot :: snapshot where
  "blank_snapshot = \<lparr>Battery_Provides_Time_Remaining = False,
     Waiting_For_Time_Remaining_Estimates = False, Failure = None, ChargeStatus = None,
     Transport_Type = kIOPSInternalType, Power_Source_State = kIOPSBatteryPowerValue,
     Max_Capacity = 0, Current_Capacity = 0, Is_Present = True, Is_Charging = False,
     Time_to_Full_Charge = 0, Time_to_Empty = 0, BatteryHealth = None,
     HealthConfidence = None, Name = None\<rparr>"

definition worn_battery :: IOPMBattery where
  "worn_battery = demo_battery\<lparr>maxCap := 4300\<rparr>"

definition failed_battery :: IOPMBattery where
  "failed_battery = demo_battery\<lparr>properties := kIOPMPSErrorConditionKey # properties demo_battery,
     failureDetected := Some kBatteryPermFailureString\<rparr>"

text \<open>
  The globals after a wake at clock reading 100 with the sample battery, whose wait is 30
  seconds, and after the timer has then fired at 130.
\<close>

definition after_wake :: pm_globals where
  "after_wake = discontinuityOccurred 100 [demo_battery] initial_globals"

definition after_timer :: pm_globals where
  "after_timer = snd (the (timeRemainingMaybeValid demo_host 130 [demo_battery] after_wake))"


section \<open>Properties of the arithmetic\<close>

subsection \<open>Rounding\<close>

lemma round_even_err: "\<bar>of_int (round_even y) - y\<bar> \<le> 1 / 2"
proof -
  have a: "of_int \<lfloor>y\<rfloor> \<le> y" and b: "y < of_int \<lfloor>y\<rfloor> + 1" by linarith+
  show ?thesis unfolding round_even_def Let_def using a b by (auto simp add: abs_le_iff)
qed

lemma round_even_of_int: "round_even (of_int n) = n"
  unfolding round_even_def Let_def by simp

lemma ilog2_le:
  assumes "0 < x" shows "2 powi (ilog2 x) \<le> x"
proof (cases "1 \<le> x")
  case True
  then have n: "0 < \<lfloor>x\<rfloor>" by linarith
  have "0 \<le> bitlen \<lfloor>x\<rfloor> - 1" using n by (auto simp: bitlen_alt_def)
  then have "(2::rat) powi (bitlen \<lfloor>x\<rfloor> - 1) = 2 ^ nat (bitlen \<lfloor>x\<rfloor> - 1)"
    by (simp add: power_int_def)
  also have "\<dots> = of_int (2 ^ nat (bitlen \<lfloor>x\<rfloor> - 1))" by simp
  also have "\<dots> \<le> of_int \<lfloor>x\<rfloor>" using bitlen_bounds[OF n] by (simp only: of_int_le_iff)
  also have "\<dots> \<le> x" by simp
  finally show ?thesis using True by (simp add: ilog2_def)
next
  case False
  let ?m = "\<lceil>1 / x\<rceil> - 1"
  from False assms have "1 < 1 / x" by simp
  then have m: "0 < ?m" by linarith
  have "1 / x \<le> of_int (?m + 1)" by simp
  also have "?m + 1 \<le> 2 ^ nat (bitlen ?m)" using bitlen_bounds[OF m] by linarith
  then have "(of_int (?m + 1) :: rat) \<le> of_int (2 ^ nat (bitlen ?m))" by (simp only: of_int_le_iff)
  finally have "1 / x \<le> 2 ^ nat (bitlen ?m)" by simp
  then have "1 / 2 ^ nat (bitlen ?m) \<le> x" using assms
    by (simp add: field_simps)
  moreover have "(2::rat) powi (- bitlen ?m) = 1 / 2 ^ nat (bitlen ?m)"
    using bitlen_nonneg[of ?m] by (simp add: power_int_def field_simps)
  ultimately show ?thesis using False by (simp add: ilog2_def)
qed

lemma ilog2_gt:
  assumes "0 < x" shows "x < 2 powi (ilog2 x + 1)"
proof (cases "1 \<le> x")
  case True
  then have n: "0 < \<lfloor>x\<rfloor>" by linarith
  have b: "0 \<le> bitlen \<lfloor>x\<rfloor>" by (rule bitlen_nonneg)
  have "x < of_int (\<lfloor>x\<rfloor> + 1)" by simp linarith
  also have "\<lfloor>x\<rfloor> + 1 \<le> 2 ^ nat (bitlen \<lfloor>x\<rfloor>)" using bitlen_bounds[OF n] by linarith
  then have "(of_int (\<lfloor>x\<rfloor> + 1) :: rat) \<le> of_int (2 ^ nat (bitlen \<lfloor>x\<rfloor>))" by (simp only: of_int_le_iff)
  also have "\<dots> = 2 powi (bitlen \<lfloor>x\<rfloor>)" using b by (simp add: power_int_def)
  finally show ?thesis using True by (simp add: ilog2_def)
next
  case False
  let ?m = "\<lceil>1 / x\<rceil> - 1"
  from False assms have "1 < 1 / x" by simp
  then have m: "0 < ?m" by linarith
  have b1: "1 \<le> bitlen ?m" using m by (auto simp: bitlen_alt_def)
  have "(of_int (2 ^ nat (bitlen ?m - 1)) :: rat) \<le> of_int ?m"
    using bitlen_bounds[OF m] by (simp only: of_int_le_iff)
  also have "of_int ?m < 1 / x" by simp linarith
  finally have "2 ^ nat (bitlen ?m - 1) < 1 / x" by simp
  then have "x < 1 / 2 ^ nat (bitlen ?m - 1)" using assms by (simp add: field_simps)
  moreover have "(2::rat) powi (- bitlen ?m + 1) = 1 / 2 ^ nat (bitlen ?m - 1)"
    using b1 by (auto simp add: power_int_def field_simps)
  ultimately show ?thesis using False by (simp add: ilog2_def)
qed

text \<open>The significand that \<open>fl\<close> rounds lies in \<open>[2 ^ 52, 2 ^ 53)\<close>: 53 bits.\<close>

lemma fl_significand:
  assumes "x \<noteq> 0"
  shows "2 ^ 52 \<le> \<bar>x\<bar> / (2 powi (ilog2 \<bar>x\<bar> - 52))"
    and "\<bar>x\<bar> / (2 powi (ilog2 \<bar>x\<bar> - 52)) < 2 ^ 53"
proof -
  have ax: "0 < \<bar>x\<bar>" using assms by simp
  have p: "(2::rat) powi (ilog2 \<bar>x\<bar>) = 2 powi (ilog2 \<bar>x\<bar> - 52) * 2 ^ 52"
    by (simp add: power_int_diff)
  have q: "(2::rat) powi (ilog2 \<bar>x\<bar> + 1) = 2 powi (ilog2 \<bar>x\<bar> - 52) * 2 ^ 53"
    by (simp add: power_int_diff power_int_add)
  show "2 ^ 52 \<le> \<bar>x\<bar> / (2 powi (ilog2 \<bar>x\<bar> - 52))"
    using ilog2_le[OF ax] unfolding p by (simp add: field_simps)
  show "\<bar>x\<bar> / (2 powi (ilog2 \<bar>x\<bar> - 52)) < 2 ^ 53"
    using ilog2_gt[OF ax] unfolding q by (simp add: field_simps)
qed

text \<open>Rounding is off by at most half a unit in the last place.\<close>

lemma fl_error: "\<bar>fl x - x\<bar> \<le> \<bar>x\<bar> / 2 ^ 53"
proof (cases "x = 0")
  case True then show ?thesis by (simp add: fl_def)
next
  case False
  define e where "e = ilog2 \<bar>x\<bar> - 52"
  define y where "y = \<bar>x\<bar> / (2 powi e)"
  have p: "0 < (2::rat) powi e" by simp
  have lo: "2 powi e * 2 ^ 52 \<le> \<bar>x\<bar>"
    using fl_significand(1)[OF False] p unfolding e_def by (simp add: field_simps)
  have flx: "fl x = sgn x * of_int (round_even y) * (2 powi e)"
    using False by (simp add: fl_def e_def y_def Let_def)
  have x: "x = sgn x * y * (2 powi e)"
    using p by (simp add: y_def mult_sgn_abs)
  have "fl x - x = sgn x * (of_int (round_even y) - y) * (2 powi e)"
    by (subst x, subst flx) (simp add: algebra_simps)
  then have "\<bar>fl x - x\<bar> = \<bar>of_int (round_even y) - y\<bar> * (2 powi e)"
    using False p by (simp add: abs_mult abs_sgn_eq)
  also have "\<dots> \<le> (1 / 2) * (2 powi e)"
    using round_even_err[of y] p by (intro mult_right_mono) auto
  also have "\<dots> \<le> \<bar>x\<bar> / 2 ^ 53" using lo by simp
  finally show ?thesis .
qed

text \<open>Halves of integers below \<open>2 ^ 53\<close> are doubles; so are integers below \<open>2 ^ 52\<close>.\<close>

lemma fl_exact_half:
  assumes "\<bar>j\<bar> < 2 ^ 53" shows "fl (of_int j / 2) = of_int j / 2"
proof (cases "j = 0")
  case True then show ?thesis by (simp add: fl_def)
next
  case False
  define x :: rat where "x = of_int j / 2"
  define e where "e = ilog2 \<bar>x\<bar> - 52"
  have ax: "0 < \<bar>x\<bar>" using False by (simp add: x_def)
  have "\<bar>x\<bar> = of_int \<bar>j\<bar> / 2" by (simp add: x_def)
  also have "\<dots> < of_int (2 ^ 53) / 2"
    using assms by (simp only: of_int_less_iff divide_strict_right_mono zero_less_numeral)
  finally have "\<bar>x\<bar> < 2 powi 52" by simp
  with ilog2_le[OF ax] have "(2::rat) powi (ilog2 \<bar>x\<bar>) < 2 powi 52" by linarith
  then have "ilog2 \<bar>x\<bar> < 52" by (rule power_int_le_imp_less_exp[rotated]) simp_all
  then have e: "e \<le> - 1" by (simp add: e_def)
  define k where "k = nat (- 1 - e)"
  have pe: "(2::rat) powi e = 1 / (2 * 2 ^ k)"
    using e by (simp add: k_def power_int_def field_simps flip: power_Suc)
  have "\<bar>x\<bar> / (2 powi e) = of_int (\<bar>j\<bar> * 2 ^ k)"
    by (simp add: pe x_def)
  then have "round_even (\<bar>x\<bar> / (2 powi e)) = \<bar>j\<bar> * 2 ^ k"
    by (simp only: round_even_of_int)
  then have "fl x = sgn x * of_int (\<bar>j\<bar> * 2 ^ k) * (2 powi e)"
    using ax by (simp add: fl_def e_def Let_def)
  also have "\<dots> = sgn x * \<bar>x\<bar>" by (simp add: pe x_def)
  finally show ?thesis by (simp add: x_def mult_sgn_abs)
qed

lemma fl_of_int: "\<bar>j\<bar> < 2 ^ 52 \<Longrightarrow> fl (of_int j) = of_int j"
  using fl_exact_half[of "2 * j"] by simp

text \<open>Two rationals further apart than their rounding errors keep their order.\<close>

lemma fl_lt:
  assumes "x < c" and "(\<bar>x\<bar> + \<bar>c\<bar>) / 2 ^ 53 < c - x"
  shows "fl x < fl c"
proof -
  have "fl x \<le> x + \<bar>x\<bar> / 2 ^ 53" using fl_error[of x] by linarith
  moreover have "c - \<bar>c\<bar> / 2 ^ 53 \<le> fl c" using fl_error[of c] by linarith
  moreover have "x + \<bar>x\<bar> / 2 ^ 53 < c - \<bar>c\<bar> / 2 ^ 53"
    using assms(2) by (simp add: add_divide_distrib)
  ultimately show ?thesis by linarith
qed


subsection \<open>Converted integers\<close>

lemma sint_int32_bounds: "- (2 ^ 31) \<le> sint (w :: int32)" "sint (w :: int32) < 2 ^ 31"
  using sint_ge[of w] sint_lt[of w] by simp_all

lemma i2d_exact: "i2d w = Finite (of_int (sint w))"
proof -
  have "\<bar>sint w\<bar> < 2 ^ 52" using sint_int32_bounds[of w] by simp
  then have "fl (of_int (sint w)) = of_int (sint w)" by (rule fl_of_int)
  then show ?thesis by (simp only: i2d_def)
qed

lemma sint_abs_c:
  "sint (abs_c w) = (if sint w = - (2 ^ 31) then - (2 ^ 31) else \<bar>sint w\<bar>)"
proof (cases "sint w < 0")
  case False
  then show ?thesis by (simp add: abs_c_def)
next
  case True
  have neg: "sint (- w) = signed_take_bit 31 (- sint w)"
    by (simp add: sint_word_minus)
  show ?thesis
  proof (cases "sint w = - (2 ^ 31)")
    case True
    then show ?thesis by (simp add: abs_c_def neg)
  next
    case False
    with True sint_int32_bounds[of w] have "- (2 ^ 31) \<le> - sint w" "- sint w < 2 ^ 31"
      by simp_all
    then have "signed_take_bit 31 (- sint w) = - sint w"
      by (intro signed_take_bit_int_eq_self) simp_all
    with True False show ?thesis by (simp add: abs_c_def neg)
  qed
qed

lemma of_int_less_half: "(of_int x :: rat) < of_int y / 2 \<longleftrightarrow> 2 * x < y"
proof -
  have "(of_int x :: rat) < of_int y / 2 \<longleftrightarrow> (of_int (2 * x) :: rat) < of_int y"
    by (simp add: field_simps)
  then show ?thesis by (simp only: of_int_less_iff)
qed

lemma twice_of_int_less: "2 * (of_int x :: rat) < of_int y \<longleftrightarrow> 2 * x < y"
proof -
  have "2 * (of_int x :: rat) < of_int y \<longleftrightarrow> (of_int (2 * x) :: rat) < of_int y"
    by simp
  then show ?thesis by (simp only: of_int_less_iff)
qed

text \<open>
  Where the spec's bounds on the absolute currents \<open>\<bar>a\<bar>\<close> and \<open>\<bar>i\<bar>\<close> reject, so do the
  bounds the code computes from \<open>A = abs(a)\<close> and \<open>I = abs(i)\<close>, which differ from the
  absolute values at \<^verbatim>\<open>INT_MIN\<close>.
\<close>

lemma bounds_core:
  fixes a i A I :: int
  assumes A: "A = (if a = - (2 ^ 31) then - (2 ^ 31) else \<bar>a\<bar>)"
      and I: "I = (if i = - (2 ^ 31) then - (2 ^ 31) else \<bar>i\<bar>)"
      and a: "- (2 ^ 31) \<le> a" "a < 2 ^ 31" and i: "- (2 ^ 31) \<le> i" "i < 2 ^ 31"
  shows "(of_int \<bar>a\<bar> :: rat) < of_int \<bar>i\<bar> / 2 \<or> 2 * (of_int \<bar>i\<bar> :: rat) < of_int \<bar>a\<bar>
         \<Longrightarrow> (of_int A :: rat) < of_int I / 2 \<or> 2 * (of_int I :: rat) < of_int A"
    and "(of_int \<bar>a\<bar> :: rat) < 5 \<or> (15000 :: rat) < of_int \<bar>a\<bar>
         \<Longrightarrow> (of_int A :: rat) < 5 \<or> (15000 :: rat) < of_int A"
proof -
  assume "(of_int \<bar>a\<bar> :: rat) < of_int \<bar>i\<bar> / 2 \<or> 2 * (of_int \<bar>i\<bar> :: rat) < of_int \<bar>a\<bar>"
  then have "2 * \<bar>a\<bar> < \<bar>i\<bar> \<or> 2 * \<bar>i\<bar> < \<bar>a\<bar>"
    by (simp only: of_int_less_half twice_of_int_less)
  then have "2 * A < I \<or> 2 * I < A" unfolding A I using a i by auto
  then show "(of_int A :: rat) < of_int I / 2 \<or> 2 * (of_int I :: rat) < of_int A"
    by (simp only: of_int_less_half twice_of_int_less)
next
  assume "(of_int \<bar>a\<bar> :: rat) < 5 \<or> (15000 :: rat) < of_int \<bar>a\<bar>"
  then have "(of_int \<bar>a\<bar> :: rat) < of_int 5 \<or> (of_int 15000 :: rat) < of_int \<bar>a\<bar>" by simp
  then have "\<bar>a\<bar> < 5 \<or> 15000 < \<bar>a\<bar>" by (simp only: of_int_less_iff)
  then have "A < 5 \<or> 15000 < A" unfolding A using a by auto
  then have "(of_int A :: rat) < of_int 5 \<or> (of_int 15000 :: rat) < of_int A"
    by (simp only: of_int_less_iff)
  then show "(of_int A :: rat) < 5 \<or> (15000 :: rat) < of_int A" by simp
qed

lemma amperageBounds_exact:
  "amperageBounds b =
     (if batteryHas b ''InstantAmperage''
      then (Finite (of_int (sint (abs_c (instantAmperage b))) / 2),
            Finite (2 * of_int (sint (abs_c (instantAmperage b)))))
      else (Finite 5, Finite 15000))"
proof -
  let ?a = "sint (abs_c (instantAmperage b))"
  have a: "\<bar>?a\<bar> < 2 ^ 53" "\<bar>4 * ?a\<bar> < 2 ^ 53"
    using sint_int32_bounds[of "abs_c (instantAmperage b)"] by simp_all
  have e1: "(of_int ?a :: rat) * (1 / 2) = of_int ?a / 2"
   and e2: "(of_int ?a :: rat) * 2 = of_int (4 * ?a) / 2"
   and e3: "(of_int (4 * ?a) :: rat) / 2 = 2 * of_int ?a"
    by (simp_all del: of_int_sint)
  have h1: "fl (of_int ?a * (1 / 2)) = of_int ?a / 2"
    unfolding e1 by (rule fl_exact_half) (rule a)
  have h2: "fl (of_int ?a * 2) = 2 * of_int ?a"
    unfolding e2 by (subst fl_exact_half) (simp_all only: a e3)
  show ?thesis
    by (simp only: amperageBounds_def i2d_exact Let_def dmul.simps h1 h2)
qed

lemma estimateInvalid_exact:
  "estimateInvalid g b \<longleftrightarrow>
     avgAmperage b = 0
     \<or> (if batteryHas b ''InstantAmperage''
        then (of_int (sint (abs_c (avgAmperage b))) :: rat) < of_int (sint (abs_c (instantAmperage b))) / 2
           \<or> 2 * (of_int (sint (abs_c (instantAmperage b))) :: rat) < of_int (sint (abs_c (avgAmperage b)))
        else (of_int (sint (abs_c (avgAmperage b))) :: rat) < 5
           \<or> (15000 :: rat) < of_int (sint (abs_c (avgAmperage b))))
     \<or> ignoringTimeRemainingEstimates g"
  by (simp only: estimateInvalid_def amperageBounds_exact i2d_exact Let_def dlt.simps
        split: if_split prod.split) simp

lemma spec_rejects_imp_estimateInvalid:
  assumes "spec_rejects g b" shows "estimateInvalid g b"
proof (cases "avgAmperage b = 0 \<or> ignoringTimeRemainingEstimates g")
  case True
  then show ?thesis unfolding estimateInvalid_exact by blast
next
  case False
  note core = bounds_core[OF sint_abs_c[of "avgAmperage b"] sint_abs_c[of "instantAmperage b"]
      sint_int32_bounds[of "avgAmperage b"] sint_int32_bounds[of "instantAmperage b"]]
  show ?thesis
  proof (cases "batteryHas b ''InstantAmperage''")
    case True
    with False assms
    have "(of_int \<bar>sint (avgAmperage b)\<bar> :: rat) < of_int \<bar>sint (instantAmperage b)\<bar> / 2
        \<or> 2 * (of_int \<bar>sint (instantAmperage b)\<bar> :: rat) < of_int \<bar>sint (avgAmperage b)\<bar>"
      by (simp only: spec_rejects_def spec_amperageBounds_def if_True fst_conv snd_conv) blast
    from core(1)[OF this] show ?thesis unfolding estimateInvalid_exact using True by simp
  next
    case nohas: False
    with False assms
    have "(of_int \<bar>sint (avgAmperage b)\<bar> :: rat) < 5 \<or> (15000 :: rat) < of_int \<bar>sint (avgAmperage b)\<bar>"
      by (simp only: spec_rejects_def spec_amperageBounds_def if_False fst_conv snd_conv) blast
    from core(2)[OF this] show ?thesis unfolding estimateInvalid_exact using nohas by simp
  qed
qed


lemma populate_nth:
  "i < length batts \<Longrightarrow> populateTimeRemaining h g batts ! i = populateBattery h g (batts ! i)"
  by (simp add: populateTimeRemaining_def)

lemma rejected_sentinel:
  "estimateInvalid g b \<Longrightarrow> swCalculatedTR (populateBattery h g b) = - 1"
  by (simp add: populateBattery_def)

lemma capTR_cases:
  "capTR r = (if sint r < 0 then - 1 else if 600 < sint r then 600 else r)"
  by (simp add: capTR_def kMaxBattMinutes_def Let_def)

lemma capTR_range: "capTR r = - 1 \<or> (0 \<le> sint (capTR r) \<and> sint (capTR r) \<le> 600)"
  by (simp add: capTR_cases)

lemma populateBattery_range:
  "swCalculatedTR (populateBattery h g b) = - 1
   \<or> (0 \<le> sint (swCalculatedTR (populateBattery h g b))
      \<and> sint (swCalculatedTR (populateBattery h g b)) \<le> 600)"
  using capTR_range[of "calculatedTR h g b"] by (simp add: populateBattery_def)

text \<open>A quotient scaled by a constant, both rounded, is within two units in the last place.\<close>

lemma fl_scaled_quotient:
  fixes c q :: rat
  shows "\<bar>fl (c * fl q) - c * q\<bar> \<le> \<bar>c * q\<bar> / 2 ^ 51"
proof -
  have e1: "\<bar>fl q - q\<bar> \<le> \<bar>q\<bar> / 2 ^ 53" by (rule fl_error)
  have e2: "\<bar>fl (c * fl q) - c * fl q\<bar> \<le> \<bar>c * fl q\<bar> / 2 ^ 53" by (rule fl_error)
  have "\<bar>fl q\<bar> \<le> \<bar>q\<bar> + \<bar>q\<bar> / 2 ^ 53" using e1 by linarith
  then have "\<bar>c\<bar> * \<bar>fl q\<bar> \<le> \<bar>c\<bar> * (\<bar>q\<bar> + \<bar>q\<bar> / 2 ^ 53)"
    by (intro mult_left_mono) simp_all
  then have a: "\<bar>c * fl q\<bar> \<le> \<bar>c * q\<bar> + \<bar>c * q\<bar> / 2 ^ 53"
    by (simp add: abs_mult algebra_simps)
  have "\<bar>c\<bar> * \<bar>fl q - q\<bar> \<le> \<bar>c\<bar> * (\<bar>q\<bar> / 2 ^ 53)"
    using e1 by (intro mult_left_mono) simp_all
  then have b: "\<bar>c * fl q - c * q\<bar> \<le> \<bar>c * q\<bar> / 2 ^ 53"
    by (simp add: abs_mult flip: right_diff_distrib)
  have tri: "\<bar>fl (c * fl q) - c * q\<bar> \<le> \<bar>fl (c * fl q) - c * fl q\<bar> + \<bar>c * fl q - c * q\<bar>"
    by linarith
  define X Y E B where "X = \<bar>c * q\<bar>" and "Y = \<bar>c * fl q\<bar>"
    and "E = \<bar>fl (c * fl q) - c * fl q\<bar>" and "B = \<bar>c * fl q - c * q\<bar>"
  have "0 \<le> X" by (simp add: X_def)
  moreover have "Y \<le> X + X / 2 ^ 53" "B \<le> X / 2 ^ 53" "E \<le> Y / 2 ^ 53"
    using a b e2 by (simp_all only: X_def Y_def E_def B_def)
  ultimately have "E + B \<le> X / 2 ^ 51" by simp
  with tri show ?thesis by (simp only: X_def E_def B_def)
qed

lemma calculatedTR_double:
  assumes "\<not> useBatteryTimeEstimate g" and "avgAmperage b \<noteq> 0"
  shows "calculatedTR h g b = d2i h (Finite (double_minutes b))"
proof -
  have nz: "(of_int (sint (avgAmperage b)) :: rat) \<noteq> 0"
    using assms(2) by (simp add: signed_eq_0_iff del: of_int_sint)
  show ?thesis
    using assms(1) nz
    by (cases "isCharging b")
       (simp_all only: calculatedTR_def double_minutes_def i2d_exact ddiv.simps dmul.simps
          if_True if_False)
qed

lemma double_minutes_error:
  "\<bar>double_minutes b - spec_minutes b\<bar> \<le> \<bar>spec_minutes b\<bar> / 2 ^ 51"
proof (cases "isCharging b")
  case True
  let ?q = "(of_int (sint (maxCap b - currentCap b)) :: rat) / of_int (sint (avgAmperage b))"
  have "double_minutes b = fl (60 * fl ?q)" "spec_minutes b = 60 * ?q"
    using True by (simp_all add: double_minutes_def spec_minutes_def del: of_int_sint)
  then show ?thesis using fl_scaled_quotient[of 60 ?q] by (simp only:)
next
  case False
  let ?q = "(of_int (sint (currentCap b)) :: rat) / of_int (sint (avgAmperage b))"
  have "double_minutes b = fl (- 60 * fl ?q)" "spec_minutes b = - 60 * ?q"
    using False by (simp_all add: double_minutes_def spec_minutes_def del: of_int_sint)
  then show ?thesis using fl_scaled_quotient[of "- 60" ?q] by (simp only:)
qed

lemma not_invalid_avg_nonzero: "\<not> estimateInvalid g b \<Longrightarrow> avgAmperage b \<noteq> 0"
  unfolding estimateInvalid_exact by blast

subsection \<open>Comparisons after rounding\<close>

text \<open>
  Rounding keeps the order of two rationals whose distance is at least \<open>1 / (G * D)\<close> and
  whose sizes are at most \<open>M / D\<close> together, when \<open>M * G < 2 ^ 53\<close>.
\<close>

lemma fl_order:
  fixes x c D G M :: rat
  assumes lt: "x < c" and D: "0 < D" and G: "0 < G"
      and gap: "1 / (G * D) \<le> c - x" and mag: "\<bar>x\<bar> + \<bar>c\<bar> \<le> M / D" and MG: "M * G < 2 ^ 53"
  shows "fl x < fl c"
proof (rule fl_lt[OF lt])
  have "(\<bar>x\<bar> + \<bar>c\<bar>) / 2 ^ 53 \<le> (M / D) / 2 ^ 53"
    using mag by (simp add: divide_right_mono)
  also have "\<dots> = (M * G) / (2 ^ 53 * (G * D))" using D G by (simp add: field_simps)
  also have "\<dots> < 2 ^ 53 / (2 ^ 53 * (G * D))"
    using MG D G by (intro divide_strict_right_mono) simp_all
  also have "\<dots> = 1 / (G * D)" by simp
  also note gap
  finally show "(\<bar>x\<bar> + \<bar>c\<bar>) / 2 ^ 53 < c - x" .
qed

text \<open>Two distinct fractions differ by at least one over the product of the denominators.\<close>

lemma fraction_gap:
  fixes a m p q :: int
  assumes m: "0 < m" and q: "0 < q"
      and lt: "(of_int a / of_int m :: rat) < of_int p / of_int q"
  shows "1 / (of_int q * of_int m) \<le> (of_int p / of_int q - of_int a / of_int m :: rat)"
proof -
  have "(of_int (a * q) :: rat) < of_int (p * m)"
    using lt m q by (simp add: field_simps)
  then have "a * q < p * m" by (simp only: of_int_less_iff)
  then have "1 \<le> p * m - a * q" by simp
  then have "(of_int 1 :: rat) \<le> of_int (p * m - a * q)" by (simp only: of_int_le_iff)
  then have "(1 :: rat) \<le> of_int p * of_int m - of_int a * of_int q" by simp
  then have "1 / (of_int q * of_int m) \<le> (of_int p * of_int m - of_int a * of_int q) / (of_int q * of_int m :: rat)"
    using m q by (intro divide_right_mono) simp_all
  also have "\<dots> = of_int p / of_int q - of_int a / of_int m"
    using m q by (simp add: field_simps)
  finally show ?thesis .
qed

lemma fraction_gap':
  fixes a m p q :: int
  assumes m: "0 < m" and q: "0 < q"
      and lt: "(of_int p / of_int q :: rat) < of_int a / of_int m"
  shows "1 / (of_int q * of_int m) \<le> (of_int a / of_int m - of_int p / of_int q :: rat)"
  using fraction_gap[OF q m lt] by (simp add: mult.commute)

lemma quotient_sign:
  fixes a d :: int
  assumes "d \<noteq> 0"
  shows "(of_int a / of_int d :: rat) = of_int (a * sgn d) / of_int \<bar>d\<bar>"
  using assms by (cases "0 < d") (simp_all add: sgn_if)

text \<open>
  A quotient of two \<^verbatim>\<open>int\<close>-sized integers compares with a constant \<open>p / q\<close> of small
  terms the same before and after rounding both.
\<close>

lemma fl_quotient_le_const:
  fixes a d p q :: int
  assumes a: "\<bar>a\<bar> \<le> 2 ^ 32" and d: "d \<noteq> 0" "\<bar>d\<bar> \<le> 2 ^ 31"
      and q: "0 < q" "q \<le> 100" and p: "0 \<le> p" "p \<le> q"
  shows "fl (of_int a / of_int d) \<le> fl (of_int p / of_int q)
         \<longleftrightarrow> (of_int a / of_int d :: rat) \<le> of_int p / of_int q"
proof -
  define m where "m = \<bar>d\<bar>"
  define a' where "a' = a * sgn d"
  define x :: rat where "x = of_int a' / of_int m"
  define c :: rat where "c = of_int p / of_int q"
  have m: "0 < m" "m \<le> 2 ^ 31" using d by (simp_all add: m_def)
  have a': "\<bar>a'\<bar> \<le> 2 ^ 32" using a d by (simp add: a'_def abs_mult abs_sgn_eq)
  have x: "(of_int a / of_int d :: rat) = x"
    unfolding x_def a'_def m_def by (rule quotient_sign) (rule d)
  have D: "(0 :: rat) < of_int m" and G: "(0 :: rat) < of_int q" using m q by simp_all
  have "\<bar>x\<bar> = of_int \<bar>a'\<bar> / of_int m" using m by (simp add: x_def)
  also have "\<dots> \<le> of_int (2 ^ 32) / of_int m"
  proof (rule divide_right_mono)
    show "(of_int \<bar>a'\<bar> :: rat) \<le> of_int (2 ^ 32)" using a' by (simp only: of_int_le_iff)
    show "(0 :: rat) \<le> of_int m" using m by simp
  qed
  finally have ax: "\<bar>x\<bar> \<le> 2 ^ 32 / of_int m" by simp
  have "\<bar>c\<bar> = of_int p / of_int q" using p q by (simp add: c_def)
  also have "\<dots> \<le> 1" using p q by simp
  also have "\<dots> \<le> 2 ^ 31 / of_int m"
  proof -
    have "(of_int m :: rat) \<le> of_int (2 ^ 31)" using m by (simp only: of_int_le_iff)
    then show ?thesis using D by (simp add: field_simps)
  qed
  finally have ac: "\<bar>c\<bar> \<le> 2 ^ 31 / of_int m" .
  have mag: "\<bar>x\<bar> + \<bar>c\<bar> \<le> 2 ^ 33 / of_int m" and mag': "\<bar>c\<bar> + \<bar>x\<bar> \<le> 2 ^ 33 / of_int m"
    using ax ac D by (simp_all add: field_simps)
  have "(of_int q :: rat) \<le> of_int 100" using q by (simp only: of_int_le_iff)
  then have MG: "2 ^ 33 * (of_int q :: rat) < 2 ^ 53" by simp
  consider "x < c" | "x = c" | "c < x" by linarith
  then have "fl x \<le> fl c \<longleftrightarrow> x \<le> c"
  proof cases
    case 1
    have "1 / (of_int q * of_int m) \<le> c - x"
      unfolding c_def x_def by (rule fraction_gap) (use m q 1 in \<open>simp_all add: c_def x_def\<close>)
    from fl_order[OF 1 D G this mag MG] 1 show ?thesis by simp
  next
    case 2
    then show ?thesis by simp
  next
    case 3
    have "1 / (of_int q * of_int m) \<le> x - c"
      unfolding c_def x_def by (rule fraction_gap') (use m q 3 in \<open>simp_all add: c_def x_def\<close>)
    from fl_order[OF 3 D G this mag' MG] 3 show ?thesis by simp
  qed
  then show ?thesis unfolding x c_def .
qed

subsection \<open>Rounding to the nearest integer\<close>

lemma fl_minus: "fl (- x) = - fl x"
  by (simp add: fl_def Let_def)

lemma fl_nonneg:
  assumes "0 \<le> x" shows "0 \<le> fl x"
proof -
  have "\<bar>fl x - x\<bar> \<le> x / 2 ^ 53" using fl_error[of x] assms by simp
  then have "x - x / 2 ^ 53 \<le> fl x" by linarith
  moreover have "x / 2 ^ 53 \<le> x" using assms by (simp add: field_simps)
  ultimately show ?thesis by linarith
qed

lemma fl_neg:
  assumes "x < 0" shows "fl x < 0"
proof -
  have "\<bar>fl x - x\<bar> \<le> - x / 2 ^ 53" using fl_error[of x] assms by simp
  then have "fl x \<le> x - x / 2 ^ 53" by linarith
  moreover have "- x / 2 ^ 53 < - x" using assms by (simp add: field_simps)
  ultimately show ?thesis by linarith
qed

lemma floor_half_fl:
  fixes N m :: int
  assumes N: "0 \<le> N" "N \<le> 100 * 2 ^ 31" and m: "0 < m" "m \<le> 2 ^ 31"
  shows "\<lfloor>fl (of_int N / of_int m) + 1 / 2\<rfloor> = \<lfloor>(of_int N / of_int m :: rat) + 1 / 2\<rfloor>"
proof -
  define x :: rat where "x = of_int N / of_int m"
  define k where "k = \<lfloor>x + 1 / 2\<rfloor>"
  have D: "(0 :: rat) < of_int m" using m by simp
  have x0: "0 \<le> x" using N m by (simp add: x_def)
  have mD: "(1 :: rat) \<le> 2 ^ 31 / of_int m"
  proof -
    have "(of_int m :: rat) \<le> of_int (2 ^ 31)" using m by (simp only: of_int_le_iff)
    then show ?thesis using D by (simp add: field_simps)
  qed
  have xN: "x \<le> 100 * 2 ^ 31 / of_int m"
  proof -
    have "(of_int N :: rat) \<le> of_int (100 * 2 ^ 31)" using N by (simp only: of_int_le_iff)
    then show ?thesis unfolding x_def using D by (simp add: divide_right_mono)
  qed
  have xle: "x \<le> 100 * 2 ^ 31"
  proof -
    have "x \<le> of_int N" unfolding x_def using N m
      by (simp add: field_simps mult_le_cancel_left1) 
    also have "\<dots> \<le> of_int (100 * 2 ^ 31)" using N by (simp only: of_int_le_iff)
    finally show ?thesis by simp
  qed
  have k: "of_int k \<le> x + 1 / 2" "x + 1 / 2 < of_int k + 1"
    unfolding k_def by linarith+
  have k0: "0 \<le> k" unfolding k_def using x0 by simp
  have kb: "of_int k \<le> (100 * 2 ^ 31 + 1 :: rat)" using k(1) xle by linarith
  then have "(of_int k :: rat) \<le> of_int (100 * 2 ^ 31 + 1)" by simp
  then have kb': "k \<le> 100 * 2 ^ 31 + 1" by (simp only: of_int_le_iff)
  have e1: "fl (of_int (2 * k - 1) / 2) = of_int (2 * k - 1) / 2"
   and e2: "fl (of_int (2 * k + 1) / 2) = of_int (2 * k + 1) / 2"
    using k0 kb' by (intro fl_exact_half; simp)+
  have c1: "(of_int (2 * k - 1) / of_int 2 :: rat) = of_int k - 1 / 2"
   and c2: "(of_int (2 * k + 1) / of_int 2 :: rat) = of_int k + 1 / 2"
    by (simp_all add: field_simps)
  have G: "(0 :: rat) < of_int 2" by simp
  have MG: "(2 ^ 40 :: rat) * of_int 2 < 2 ^ 53" by simp
  have mag: "\<bar>x\<bar> + \<bar>of_int k + 1 / 2 :: rat\<bar> \<le> 2 ^ 40 / of_int m"
            "\<bar>of_int k - 1 / 2 :: rat\<bar> + \<bar>x\<bar> \<le> 2 ^ 40 / of_int m"
  proof -
    have "\<bar>of_int k + 1 / 2 :: rat\<bar> \<le> x + 1" "\<bar>of_int k - 1 / 2 :: rat\<bar> \<le> x + 1"
      using k k0 x0 by (simp_all add: abs_le_iff) 
    moreover have "x + x + 1 \<le> (201 * 2 ^ 31) / of_int m"
      using xN mD by (simp add: field_simps)
    moreover have "(201 * 2 ^ 31 :: rat) / of_int m \<le> 2 ^ 40 / of_int m"
      using D by (intro divide_right_mono) simp_all
    ultimately show "\<bar>x\<bar> + \<bar>of_int k + 1 / 2 :: rat\<bar> \<le> 2 ^ 40 / of_int m"
            "\<bar>of_int k - 1 / 2 :: rat\<bar> + \<bar>x\<bar> \<le> 2 ^ 40 / of_int m"
      using x0 by linarith+
  qed
  have up: "fl x < of_int k + 1 / 2"
  proof -
    have lt: "x < of_int k + 1 / 2" using k(2) by simp
    have "1 / (of_int 2 * of_int m) \<le> (of_int (2 * k + 1) / of_int 2 - of_int N / of_int m :: rat)"
      by (rule fraction_gap) (use m lt in \<open>simp_all add: x_def c2[symmetric]\<close>)
    then have gap: "1 / (of_int 2 * of_int m) \<le> (of_int k + 1 / 2) - x"
      unfolding c2 x_def .
    have "fl x < fl (of_int k + 1 / 2)" by (rule fl_order[OF lt D G gap mag(1) MG])
    then show ?thesis using e2 unfolding c2[symmetric] by simp
  qed
  have lo: "of_int k - 1 / 2 \<le> fl x"
  proof (cases "of_int k - 1 / 2 = x")
    case True
    then have "fl x = x" using e1 unfolding c1[symmetric] by simp
    with True show ?thesis by simp
  next
    case False
    then have lt: "of_int k - 1 / 2 < x" using k(1) by simp
    have "1 / (of_int 2 * of_int m) \<le> (of_int N / of_int m - of_int (2 * k - 1) / of_int 2 :: rat)"
      by (rule fraction_gap') (use m lt in \<open>simp_all add: x_def c1[symmetric]\<close>)
    then have gap: "1 / (of_int 2 * of_int m) \<le> x - (of_int k - 1 / 2)"
      unfolding c1 x_def .
    have "fl (of_int k - 1 / 2) < fl x" by (rule fl_order[OF lt D G gap mag(2) MG])
    then show ?thesis using e1 unfolding c1[symmetric] by simp
  qed
  have "\<lfloor>fl x + 1 / 2\<rfloor> = k"
    by (rule floor_unique) (use up lo in simp_all)
  then show ?thesis unfolding k_def x_def .
qed

lemma round_half_away_fl:
  fixes a d :: int
  assumes a: "\<bar>a\<bar> \<le> 100 * 2 ^ 31" and d: "d \<noteq> 0" "\<bar>d\<bar> \<le> 2 ^ 31"
  shows "round_half_away (fl (of_int a / of_int d)) = round_half_away (of_int a / of_int d)"
proof -
  define m where "m = \<bar>d\<bar>"
  define a' where "a' = a * sgn d"
  have m: "0 < m" "m \<le> 2 ^ 31" using d by (simp_all add: m_def)
  have a': "\<bar>a'\<bar> \<le> 100 * 2 ^ 31" using a d by (simp add: a'_def abs_mult abs_sgn_eq)
  have x: "(of_int a / of_int d :: rat) = of_int a' / of_int m"
    unfolding a'_def m_def by (rule quotient_sign) (rule d)
  show ?thesis
  proof (cases "0 \<le> a'")
    case True
    then have "(0 :: rat) \<le> of_int a' / of_int m" using m by simp
    moreover from this have "0 \<le> fl (of_int a' / of_int m)" by (rule fl_nonneg)
    ultimately show ?thesis
      unfolding x round_half_away_def using floor_half_fl[of a' m] True a' m by simp
  next
    case False
    then have neg: "(of_int a' / of_int m :: rat) < 0" using m by (simp add: field_simps)
    then have fneg: "fl (of_int a' / of_int m) < 0" by (rule fl_neg)
    have "\<lfloor>fl (of_int (- a') / of_int m) + 1 / 2\<rfloor> = \<lfloor>(of_int (- a') / of_int m :: rat) + 1 / 2\<rfloor>"
      using False a' m by (intro floor_half_fl) simp_all
    then have "\<lfloor>- fl (of_int a' / of_int m) + 1 / 2\<rfloor> = \<lfloor>- (of_int a' / of_int m :: rat) + 1 / 2\<rfloor>"
      by (simp add: fl_minus flip: minus_divide_left)
    then show ?thesis
      unfolding x round_half_away_def using neg fneg by simp
  qed
qed

section \<open>The time-remaining estimator\<close>

text \<open>
  C1. For every battery of a cycle, \<^verbatim>\<open>_populateTimeRemaining\<close> stores the sentinel \<open>-1\<close>
  in \<open>swCalculatedTR\<close> whenever the spec's rejection test holds: the average current is
  zero, or its absolute value is below half or above twice the absolute instantaneous
  current (below 5 or above 15000 when the battery does not report the instantaneous
  current), or the daemon is ignoring estimates. In particular a zero average current
  gives \<open>-1\<close> whatever the other fields are.
\<close>

theorem rejected_estimate_is_sentinel:
  assumes "i < length batts"
  shows "(spec_rejects g (batts ! i) \<longrightarrow>
            swCalculatedTR (populateTimeRemaining h g batts ! i) = - 1)
       \<and> (avgAmperage (batts ! i) = 0 \<longrightarrow>
            swCalculatedTR (populateTimeRemaining h g batts ! i) = - 1)"
proof -
  have "avgAmperage (batts ! i) = 0 \<Longrightarrow> spec_rejects g (batts ! i)"
    by (simp add: spec_rejects_def)
  then show ?thesis
    using assms
    by (auto simp add: populate_nth intro: rejected_sentinel spec_rejects_imp_estimateInvalid)
qed

text \<open>
  An average current of 1500 mA against an instantaneous current of 480 mA is above the
  upper bound of 960.
\<close>

theorem rejected_estimate_is_sentinel_witness:
  "0 < length [demo_battery\<lparr>avgAmperage := - 1500\<rparr>]
   \<and> spec_rejects initial_globals ([demo_battery\<lparr>avgAmperage := - 1500\<rparr>] ! 0)
   \<and> swCalculatedTR (populateTimeRemaining demo_host initial_globals
        [demo_battery\<lparr>avgAmperage := - 1500\<rparr>] ! 0) = - 1"
proof -
  have r: "spec_rejects initial_globals ([demo_battery\<lparr>avgAmperage := - 1500\<rparr>] ! 0)"
    by (simp add: spec_rejects_def spec_amperageBounds_def batteryHas_def demo_battery_def)
  show ?thesis
    using r rejected_estimate_is_sentinel
      [of 0 "[demo_battery\<lparr>avgAmperage := - 1500\<rparr>]" initial_globals demo_host]
    by simp
qed

text \<open>
  C9. When a battery reports the instantaneous current and that current is zero, both
  bounds are zero and the estimator stores \<open>-1\<close> whatever the average current is.
\<close>

theorem zero_instant_current_rejects:
  assumes "i < length batts"
      and "batteryHas (batts ! i) ''InstantAmperage''"
      and "instantAmperage (batts ! i) = 0"
  shows "amperageBounds (batts ! i) = (Finite 0, Finite 0)
       \<and> swCalculatedTR (populateTimeRemaining h g batts ! i) = - 1"
proof -
  let ?b = "batts ! i"
  have z: "sint (abs_c (instantAmperage ?b)) = 0" using assms(3) by (simp add: abs_c_def)
  have bounds: "amperageBounds ?b = (Finite 0, Finite 0)"
    unfolding amperageBounds_exact z using assms(2) by simp
  have "estimateInvalid g ?b"
  proof (cases "avgAmperage ?b = 0")
    case True then show ?thesis unfolding estimateInvalid_exact by blast
  next
    case False
    then have "sint (avgAmperage ?b) \<noteq> 0" by (simp add: signed_eq_0_iff)
    then have "sint (abs_c (avgAmperage ?b)) \<noteq> 0" unfolding sint_abs_c by simp
    then have "(of_int (sint (abs_c (avgAmperage ?b))) :: rat) < 0
             \<or> (0 :: rat) < of_int (sint (abs_c (avgAmperage ?b)))"
      by (simp del: of_int_sint) linarith
    then show ?thesis unfolding estimateInvalid_exact z using assms(2) by simp
  qed
  then show ?thesis using assms(1) bounds by (simp add: populate_nth rejected_sentinel)
qed

theorem zero_instant_current_rejects_witness:
  "0 < length [demo_battery\<lparr>instantAmperage := 0\<rparr>]
   \<and> batteryHas ([demo_battery\<lparr>instantAmperage := 0\<rparr>] ! 0) ''InstantAmperage''
   \<and> instantAmperage ([demo_battery\<lparr>instantAmperage := 0\<rparr>] ! 0) = 0
   \<and> swCalculatedTR (populateTimeRemaining demo_host initial_globals
        [demo_battery\<lparr>instantAmperage := 0\<rparr>] ! 0) = - 1"
proof -
  have p: "batteryHas ([demo_battery\<lparr>instantAmperage := 0\<rparr>] ! 0) ''InstantAmperage''"
    by (simp add: batteryHas_def demo_battery_def)
  show ?thesis
    using p zero_instant_current_rejects
      [of 0 "[demo_battery\<lparr>instantAmperage := 0\<rparr>]" demo_host initial_globals]
    by simp
qed

text \<open>
  C2, as stated, fails: the minutes are not the quotient of the formula. For 4100 mAh
  discharging at 500 mA the formula gives 492 minutes, inside the range that the clamp
  leaves alone; the code divides first and multiplies the rounded quotient, and the
  product, just below 492, is stored as 491.
\<close>

theorem exact_minutes_counterexample:
  "\<not> estimateInvalid initial_globals demo_battery
   \<and> \<not> useBatteryTimeEstimate initial_globals
   \<and> \<not> isCharging demo_battery
   \<and> spec_minutes demo_battery = 492
   \<and> swCalculatedTR (populateTimeRemaining demo_host initial_globals [demo_battery] ! 0) = 491"
proof -
  have v: "\<not> estimateInvalid initial_globals demo_battery" by code_simp
  have c: "swCalculatedTR (populateTimeRemaining demo_host initial_globals [demo_battery] ! 0) = 491"
    by code_simp
  have m: "spec_minutes demo_battery = 492" by (simp add: spec_minutes_def demo_battery_def)
  show ?thesis using v c m by (simp add: initial_globals_def demo_battery_def)
qed

text \<open>
  C2, amended. For a battery that passes the rejection test, the value first stored is the
  firmware's estimate when that is trusted. Otherwise it is the conversion to \<^verbatim>\<open>int\<close>,
  truncating, of the double \<open>60 * ((maxCap - currentCap) / avgAmperage)\<close> when charging and
  \<open>-60 * (currentCap / avgAmperage)\<close> when discharging, quotient and product rounded in
  turn; that double is within a relative error of \<open>2 ^ -51\<close> of the exact value of the
  formula. On both paths a negative value is then replaced by \<open>-1\<close> and a value above
  600 by 600. Hence, for all batteries, the final \<open>swCalculatedTR\<close> is \<open>-1\<close> or lies
  between 0 and 600.
\<close>

theorem accepted_estimate_is_clamped:
  assumes "i < length batts" and "\<not> estimateInvalid g (batts ! i)"
  shows "swCalculatedTR (populateTimeRemaining h g batts ! i) =
           (let tr = calculatedTR h g (batts ! i)
            in if sint tr < 0 then - 1 else if 600 < sint tr then 600 else tr)
       \<and> (useBatteryTimeEstimate g \<longrightarrow> calculatedTR h g (batts ! i) = hwAverageTR (batts ! i))
       \<and> (\<not> useBatteryTimeEstimate g \<longrightarrow>
            calculatedTR h g (batts ! i) = d2i h (Finite (double_minutes (batts ! i))))
       \<and> \<bar>double_minutes (batts ! i) - spec_minutes (batts ! i)\<bar>
            \<le> \<bar>spec_minutes (batts ! i)\<bar> / 2 ^ 51
       \<and> (\<forall>j < length batts.
            swCalculatedTR (populateTimeRemaining h g batts ! j) = - 1
            \<or> (0 \<le> sint (swCalculatedTR (populateTimeRemaining h g batts ! j))
               \<and> sint (swCalculatedTR (populateTimeRemaining h g batts ! j)) \<le> 600))"
proof (intro conjI)
  show "swCalculatedTR (populateTimeRemaining h g batts ! i) =
           (let tr = calculatedTR h g (batts ! i)
            in if sint tr < 0 then - 1 else if 600 < sint tr then 600 else tr)"
    using assms by (simp add: populate_nth populateBattery_def capTR_cases Let_def)
  show "useBatteryTimeEstimate g \<longrightarrow> calculatedTR h g (batts ! i) = hwAverageTR (batts ! i)"
    by (simp add: calculatedTR_def)
  show "\<not> useBatteryTimeEstimate g \<longrightarrow>
           calculatedTR h g (batts ! i) = d2i h (Finite (double_minutes (batts ! i)))"
    using calculatedTR_double[OF _ not_invalid_avg_nonzero[OF assms(2)]] by blast
  show "\<bar>double_minutes (batts ! i) - spec_minutes (batts ! i)\<bar>
            \<le> \<bar>spec_minutes (batts ! i)\<bar> / 2 ^ 51"
    by (rule double_minutes_error)
  show "\<forall>j < length batts.
           swCalculatedTR (populateTimeRemaining h g batts ! j) = - 1
           \<or> (0 \<le> sint (swCalculatedTR (populateTimeRemaining h g batts ! j))
              \<and> sint (swCalculatedTR (populateTimeRemaining h g batts ! j)) \<le> 600)"
    using populateBattery_range by (simp add: populate_nth)
qed

text \<open>900 mAh short of full, charging at 700 mA: 77 minutes, of an exact 540 / 7.\<close>

theorem accepted_estimate_is_clamped_witness:
  "0 < length [charging_battery]
   \<and> \<not> estimateInvalid initial_globals ([charging_battery] ! 0)
   \<and> \<not> useBatteryTimeEstimate initial_globals
   \<and> calculatedTR demo_host initial_globals charging_battery = 77
   \<and> swCalculatedTR (populateTimeRemaining demo_host initial_globals [charging_battery] ! 0) = 77"
proof -
  have v: "\<not> estimateInvalid initial_globals ([charging_battery] ! 0)" by code_simp
  have c: "d2i demo_host (Finite (double_minutes charging_battery)) = 77" by code_simp
  have u: "\<not> useBatteryTimeEstimate initial_globals" by (simp add: initial_globals_def)
  show ?thesis
    using v c u accepted_estimate_is_clamped [of 0 "[charging_battery]" initial_globals demo_host]
    by simp
qed

section \<open>The health classifier\<close>

lemma health_ratio_exact:
  assumes "designCap b \<noteq> 0"
  shows "ddiv (dadd (i2d (maxCap b)) kSmartBattReserve_mAh) (i2d (designCap b))
         = Finite (fl (spec_ratio b))"
proof -
  have "\<bar>sint (maxCap b) + 200\<bar> < 2 ^ 52" using sint_int32_bounds[of "maxCap b"] by simp
  then have "fl (of_int (sint (maxCap b) + 200)) = of_int (sint (maxCap b) + 200)"
    by (rule fl_of_int)
  then have "fl (of_int (sint (maxCap b)) + 200) = of_int (sint (maxCap b)) + 200"
    by (simp del: of_int_sint)
  moreover have "(of_int (sint (designCap b)) :: rat) \<noteq> 0"
    using assms by (simp add: signed_eq_0_iff del: of_int_sint)
  ultimately show ?thesis
    by (simp only: i2d_exact kSmartBattReserve_mAh_def dadd.simps ddiv.simps spec_ratio_def if_False)
qed

lemma health_ratio_le:
  fixes p q :: int
  assumes "designCap b \<noteq> 0" and "0 < q" "q \<le> 100" "0 \<le> p" "p \<le> q"
  shows "dle (ddiv (dadd (i2d (maxCap b)) kSmartBattReserve_mAh) (i2d (designCap b)))
             (dconst (of_int p / of_int q))
         \<longleftrightarrow> spec_ratio b \<le> of_int p / of_int q"
proof -
  have r: "spec_ratio b = of_int (sint (maxCap b) + 200) / of_int (sint (designCap b))"
    by (simp add: spec_ratio_def del: of_int_sint)
  have "\<bar>sint (maxCap b) + 200\<bar> \<le> 2 ^ 32" "\<bar>sint (designCap b)\<bar> \<le> 2 ^ 31"
    using sint_int32_bounds[of "maxCap b"] sint_int32_bounds[of "designCap b"] by simp_all
  moreover have "sint (designCap b) \<noteq> 0" using assms(1) by (simp add: signed_eq_0_iff)
  ultimately have "fl (spec_ratio b) \<le> fl (of_int p / of_int q)
      \<longleftrightarrow> spec_ratio b \<le> of_int p / of_int q"
    unfolding r using assms(2-) by (intro fl_quotient_le_const)
  then show ?thesis by (simp only: health_ratio_exact[OF assms(1)] dconst_def dle.simps)
qed

lemma health_thresholds:
  assumes "designCap b \<noteq> 0"
  shows "dle (ddiv (dadd (i2d (maxCap b)) kSmartBattReserve_mAh) (i2d (designCap b)))
             (dconst (83 / 100)) \<longleftrightarrow> spec_ratio b \<le> 83 / 100"
    and "dle (ddiv (dadd (i2d (maxCap b)) kSmartBattReserve_mAh) (i2d (designCap b)))
             (dconst (80 / 100)) \<longleftrightarrow> spec_ratio b \<le> 80 / 100"
  using health_ratio_le[OF assms, of 100 83] health_ratio_le[OF assms, of 100 80] by simp_all

text \<open>With a design capacity of zero the ratio is an infinity or NaN.\<close>

lemma health_ratio_zero_design:
  assumes "designCap b = 0"
  shows "ddiv (dadd (i2d (maxCap b)) kSmartBattReserve_mAh) (i2d (designCap b))
         = (if - 200 < sint (maxCap b) then PlusInf
            else if sint (maxCap b) < - 200 then MinusInf else NaN)"
proof -
  have "\<bar>sint (maxCap b) + 200\<bar> < 2 ^ 52" using sint_int32_bounds[of "maxCap b"] by simp
  then have "fl (of_int (sint (maxCap b) + 200)) = of_int (sint (maxCap b) + 200)"
    by (rule fl_of_int)
  then have e: "fl (of_int (sint (maxCap b)) + 200) = of_int (sint (maxCap b) + 200)"
    by (simp del: of_int_sint)
  have z: "(of_int (sint (designCap b)) :: rat) = 0" using assms by simp
  have "ddiv (dadd (i2d (maxCap b)) kSmartBattReserve_mAh) (i2d (designCap b))
      = (if (0 :: rat) < of_int (sint (maxCap b) + 200) then PlusInf
         else if (of_int (sint (maxCap b) + 200) :: rat) < 0 then MinusInf else NaN)"
    by (simp only: i2d_exact kSmartBattReserve_mAh_def dadd.simps ddiv.simps e z) simp
  also have "\<dots> = (if - 200 < sint (maxCap b) then PlusInf
            else if sint (maxCap b) < - 200 then MinusInf else NaN)"
    by (simp only: of_int_0_less_iff of_int_less_0_iff) (simp add: algebra_simps)
  finally show ?thesis .
qed

lemma classifier_ratio_branch:
  assumes "isPresent b" and "noPermanentFailure b"
      and "batteryHas b kIOPMPSMaxCapacityKey" and "batteryHas b kIOPMPSDesignCapacityKey"
      and "designCap b \<noteq> 0"
  shows "setBatteryHealthConfidence outDict b =
           (if markedNeedsReplacement b
            then (if spec_ratio b \<le> 83 / 100 \<and> sint (cycleCount b) < 300
                  then Some (outDict\<lparr>BatteryHealth := Some kIOPSFairValue,
                                     HealthConfidence := Some kIOPSGoodValue\<rparr>, b)
                  else Some (outDict\<lparr>BatteryHealth := Some kIOPSGoodValue,
                                     HealthConfidence := Some kIOPSGoodValue\<rparr>,
                             b\<lparr>markedNeedsReplacement := False\<rparr>))
            else (if spec_ratio b \<le> 80 / 100 \<and> sint (cycleCount b) < 300
                  then Some (outDict\<lparr>BatteryHealth := Some kIOPSFairValue,
                                     HealthConfidence := Some kIOPSGoodValue\<rparr>,
                             b\<lparr>markedNeedsReplacement := True\<rparr>)
                  else Some (outDict\<lparr>BatteryHealth := Some kIOPSGoodValue,
                                     HealthConfidence := Some kIOPSGoodValue\<rparr>, b)))"
proof -
  have g1: "(\<not> isPresent b) = False" using assms(1) by simp
  have g2: "(batteryHas b kIOPMPSErrorConditionKey \<and> failureDetected b = None) = False"
    using assms(2) by (auto simp add: noPermanentFailure_def split: option.splits)
  have g3: "(batteryHas b kIOPMPSErrorConditionKey
              \<and> failureDetected b = Some kBatteryPermFailureString) = False"
    using assms(2) by (auto simp add: noPermanentFailure_def split: option.splits)
  have g4: "(batteryHas b kIOPMPSMaxCapacityKey \<and> batteryHas b kIOPMPSDesignCapacityKey) = True"
    using assms(3,4) by simp
  define P where "P = (spec_ratio b \<le> 83 / 100 \<and> sint (cycleCount b) < 300)"
  define Q where "Q = (spec_ratio b \<le> 80 / 100 \<and> sint (cycleCount b) < 300)"
  show ?thesis
    unfolding setBatteryHealthConfidence_def g1 g2 g3 g4 if_False if_True Let_def
      health_thresholds[OF assms(5)] P_def[symmetric] Q_def[symmetric]
    by (cases "markedNeedsReplacement b"; cases P; cases Q)
       (simp_all only: if_True if_False prod.case)
qed

text \<open>
  C7, as stated, fails: a battery that is not present gets no health and no confidence,
  also when it reports a permanent failure, since the classifier returns on the absent
  battery before it looks at the failure.
\<close>

theorem permanent_failure_absent_counterexample:
  "batteryHas (failed_battery\<lparr>isPresent := False\<rparr>) kIOPMPSErrorConditionKey
   \<and> failureDetected (failed_battery\<lparr>isPresent := False\<rparr>) = Some kBatteryPermFailureString
   \<and> setBatteryHealthConfidence blank_snapshot (failed_battery\<lparr>isPresent := False\<rparr>)
       = Some (blank_snapshot, failed_battery\<lparr>isPresent := False\<rparr>)
   \<and> BatteryHealth blank_snapshot = None
   \<and> HealthConfidence blank_snapshot = None"
  by (simp add: failed_battery_def demo_battery_def batteryHas_def blank_snapshot_def
        setBatteryHealthConfidence_def)

text \<open>
  C7, amended. For every present battery that reports a permanent failure (it has the
  error condition, and its failure string is the permanent-failure string), the classifier
  sets the health to Poor and the confidence to Good and returns: the result does not
  depend on the capacities or the cycle count, and the battery, with its latch
  \<open>markedNeedsReplacement\<close>, is unchanged.
\<close>

theorem present_permanent_failure_is_poor:
  assumes "isPresent b"
      and "batteryHas b kIOPMPSErrorConditionKey"
      and "failureDetected b = Some kBatteryPermFailureString"
  shows "setBatteryHealthConfidence outDict b =
           Some (outDict\<lparr>BatteryHealth := Some kIOPSPoorValue,
                         HealthConfidence := Some kIOPSGoodValue\<rparr>, b)"
  using assms by (simp add: setBatteryHealthConfidence_def)

theorem present_permanent_failure_is_poor_witness:
  "isPresent failed_battery
   \<and> batteryHas failed_battery kIOPMPSErrorConditionKey
   \<and> failureDetected failed_battery = Some kBatteryPermFailureString
   \<and> setBatteryHealthConfidence blank_snapshot failed_battery =
       Some (blank_snapshot\<lparr>BatteryHealth := Some kIOPSPoorValue,
                             HealthConfidence := Some kIOPSGoodValue\<rparr>, failed_battery)"
proof -
  have h: "isPresent failed_battery" "batteryHas failed_battery kIOPMPSErrorConditionKey"
    "failureDetected failed_battery = Some kBatteryPermFailureString"
    by (simp_all add: failed_battery_def demo_battery_def batteryHas_def)
  show ?thesis
    using h present_permanent_failure_is_poor [of failed_battery blank_snapshot] by simp
qed

text \<open>
  C3, as stated, fails: for a battery that is not present the classifier sets nothing and
  leaves the latch alone, whatever the ratio is. Here the ratio is \<open>42 / 55\<close>, below
  0.80, with 120 cycles.
\<close>

theorem hysteresis_absent_battery_counterexample:
  "noPermanentFailure (demo_battery\<lparr>maxCap := 4000, isPresent := False\<rparr>)
   \<and> batteryHas (demo_battery\<lparr>maxCap := 4000, isPresent := False\<rparr>) kIOPMPSMaxCapacityKey
   \<and> batteryHas (demo_battery\<lparr>maxCap := 4000, isPresent := False\<rparr>) kIOPMPSDesignCapacityKey
   \<and> \<not> markedNeedsReplacement (demo_battery\<lparr>maxCap := 4000, isPresent := False\<rparr>)
   \<and> spec_ratio (demo_battery\<lparr>maxCap := 4000, isPresent := False\<rparr>) \<le> 80 / 100
   \<and> sint (cycleCount (demo_battery\<lparr>maxCap := 4000, isPresent := False\<rparr>)) < 300
   \<and> setBatteryHealthConfidence blank_snapshot (demo_battery\<lparr>maxCap := 4000, isPresent := False\<rparr>)
       = Some (blank_snapshot, demo_battery\<lparr>maxCap := 4000, isPresent := False\<rparr>)
   \<and> BatteryHealth blank_snapshot = None"
  by (simp add: demo_battery_def batteryHas_def blank_snapshot_def noPermanentFailure_def
        setBatteryHealthConfidence_def spec_ratio_def
        kIOPMPSMaxCapacityKey_def kIOPMPSDesignCapacityKey_def kIOPMPSErrorConditionKey_def)

text \<open>
  C3, amended. For a present battery without a permanent failure that reports both its
  maximum and its design capacity, the latter not zero, the classifier is the two-state
  machine on \<open>ratio = (maxCap + 200) / designCap\<close>: it reports Fair and leaves the latch
  set exactly when \<open>cycleCount < 300\<close> and the ratio is at most 0.80 from the unlatched
  state, at most 0.83 from the latched one; otherwise it reports Good and leaves the latch
  clear. The confidence is Good in both cases. The comparisons are those of the exact
  ratio: rounding the quotient and the two thresholds to doubles does not change them.
\<close>

theorem hysteresis_of_present_battery:
  assumes "isPresent b" and "noPermanentFailure b"
      and "batteryHas b kIOPMPSMaxCapacityKey" and "batteryHas b kIOPMPSDesignCapacityKey"
      and "designCap b \<noteq> 0"
  shows "setBatteryHealthConfidence outDict b =
           (if spec_ratio b \<le> (if markedNeedsReplacement b then 83 / 100 else 80 / 100)
               \<and> sint (cycleCount b) < 300
            then Some (outDict\<lparr>BatteryHealth := Some kIOPSFairValue,
                               HealthConfidence := Some kIOPSGoodValue\<rparr>,
                       b\<lparr>markedNeedsReplacement := True\<rparr>)
            else Some (outDict\<lparr>BatteryHealth := Some kIOPSGoodValue,
                               HealthConfidence := Some kIOPSGoodValue\<rparr>,
                       b\<lparr>markedNeedsReplacement := False\<rparr>))"
proof (cases "markedNeedsReplacement b")
  case True
  then have "b\<lparr>markedNeedsReplacement := True\<rparr> = b" by simp
  with True show ?thesis
    unfolding classifier_ratio_branch[OF assms] by (simp only: if_True)
next
  case False
  then have "b\<lparr>markedNeedsReplacement := False\<rparr> = b" by simp
  with False show ?thesis
    unfolding classifier_ratio_branch[OF assms] by (simp only: if_False)
qed

text \<open>
  At a ratio of \<open>9 / 11\<close>, between the thresholds, the unlatched battery is Good and the
  latched one stays Fair.
\<close>

theorem hysteresis_of_present_battery_witness:
  "isPresent worn_battery \<and> noPermanentFailure worn_battery
   \<and> batteryHas worn_battery kIOPMPSMaxCapacityKey
   \<and> batteryHas worn_battery kIOPMPSDesignCapacityKey
   \<and> designCap worn_battery \<noteq> 0
   \<and> spec_ratio worn_battery = 9 / 11
   \<and> setBatteryHealthConfidence blank_snapshot worn_battery =
       Some (blank_snapshot\<lparr>BatteryHealth := Some kIOPSGoodValue,
                             HealthConfidence := Some kIOPSGoodValue\<rparr>, worn_battery)
   \<and> setBatteryHealthConfidence blank_snapshot (worn_battery\<lparr>markedNeedsReplacement := True\<rparr>) =
       Some (blank_snapshot\<lparr>BatteryHealth := Some kIOPSFairValue,
                             HealthConfidence := Some kIOPSGoodValue\<rparr>,
             worn_battery\<lparr>markedNeedsReplacement := True\<rparr>)"
proof -
  have h: "isPresent worn_battery" "noPermanentFailure worn_battery"
    "batteryHas worn_battery kIOPMPSMaxCapacityKey"
    "batteryHas worn_battery kIOPMPSDesignCapacityKey"
    "designCap worn_battery \<noteq> 0"
    by (simp_all add: worn_battery_def demo_battery_def batteryHas_def noPermanentFailure_def
          kIOPMPSMaxCapacityKey_def kIOPMPSDesignCapacityKey_def kIOPMPSErrorConditionKey_def)
  have r: "spec_ratio worn_battery = 9 / 11"
    "spec_ratio (worn_battery\<lparr>markedNeedsReplacement := True\<rparr>) = 9 / 11"
    by (simp_all add: spec_ratio_def worn_battery_def demo_battery_def)
  have c: "sint (cycleCount worn_battery) = 120" "\<not> markedNeedsReplacement worn_battery"
    by (simp_all add: worn_battery_def demo_battery_def)
  have u: "worn_battery\<lparr>markedNeedsReplacement := False\<rparr> = worn_battery"
    by (simp add: worn_battery_def demo_battery_def)
  show ?thesis
    using h r c u hysteresis_of_present_battery [of worn_battery blank_snapshot]
      hysteresis_of_present_battery [of "worn_battery\<lparr>markedNeedsReplacement := True\<rparr>" blank_snapshot]
    by (simp add: noPermanentFailure_def batteryHas_def)
qed

section \<open>The capacity percentages\<close>

lemma percent_double:
  assumes "maxCap b \<noteq> 0"
  shows "ddiv (dmul (i2d (currentCap b)) (Finite 100)) (i2d (maxCap b))
         = Finite (fl (of_int (sint (currentCap b) * 100) / of_int (sint (maxCap b))))"
proof -
  have "\<bar>sint (currentCap b) * 100\<bar> < 2 ^ 52"
    using sint_int32_bounds[of "currentCap b"] by simp
  then have "fl (of_int (sint (currentCap b) * 100)) = of_int (sint (currentCap b) * 100)"
    by (rule fl_of_int)
  then have "fl (of_int (sint (currentCap b)) * 100) = of_int (sint (currentCap b) * 100)"
    by (simp del: of_int_sint)
  moreover have "(of_int (sint (maxCap b)) :: rat) \<noteq> 0"
    using assms by (simp add: signed_eq_0_iff del: of_int_sint)
  ultimately show ?thesis
    by (simp only: i2d_exact dmul.simps ddiv.simps if_False)
qed

lemma percent_rounds_exactly:
  assumes "maxCap b \<noteq> 0"
  shows "round_half_away (fl (of_int (sint (currentCap b) * 100) / of_int (sint (maxCap b))))
         = spec_percent b"
proof -
  have "\<bar>sint (currentCap b) * 100\<bar> \<le> 100 * 2 ^ 31" "\<bar>sint (maxCap b)\<bar> \<le> 2 ^ 31"
    using sint_int32_bounds[of "currentCap b"] sint_int32_bounds[of "maxCap b"] by simp_all
  moreover have "sint (maxCap b) \<noteq> 0" using assms by (simp add: signed_eq_0_iff)
  ultimately have "round_half_away (fl (of_int (sint (currentCap b) * 100) / of_int (sint (maxCap b))))
      = round_half_away (of_int (sint (currentCap b) * 100) / of_int (sint (maxCap b)))"
    by (intro round_half_away_fl)
  then show ?thesis by (simp add: spec_percent_def del: of_int_sint)
qed

lemma int32_of_int_eq_100:
  assumes "in_int32 r" shows "(word_of_int r :: int32) = 100 \<longleftrightarrow> r = 100"
proof
  assume "(word_of_int r :: int32) = 100"
  then have "sint (word_of_int r :: int32) = sint (100 :: int32)" by simp
  moreover have "sint (word_of_int r :: int32) = r"
    using assms by (simp add: in_int32_def sint_sbintrunc' signed_take_bit_int_eq_self)
  ultimately show "r = 100" by simp
qed simp

lemma capacityPercentages_eq:
  "capacityPercentages h b = (if maxCap b = 0 then 0 else 100, spec_current_percent h b)"
proof (cases "maxCap b = 0")
  case True
  then show ?thesis by (simp add: capacityPercentages_def spec_current_percent_def)
next
  case nz: False
  let ?D = "fl (of_int (sint (currentCap b) * 100) / of_int (sint (maxCap b)))"
  have l: "lround_int h (Finite ?D)
      = (if in_int32 (spec_percent b) then word_of_int (spec_percent b)
         else lround_to_int_undefined h (Finite ?D))"
    by (simp only: lround_int_def double.case percent_rounds_exactly[OF nz])
  have "capacityPercentages h b =
          (100, let set_charge = lround_int h (Finite ?D)
                in if set_charge = 100 \<and> isCharging b then 99 else set_charge)"
    using nz by (simp only: capacityPercentages_def percent_double[OF nz] Let_def) simp
  then show ?thesis
    using nz unfolding l by (simp only: spec_current_percent_def Let_def if_False)
qed

lemma health_stops:
  "setBatteryHealthConfidence outDict b = None \<longleftrightarrow> healthStops b"
  by (simp add: setBatteryHealthConfidence_def healthStops_def Let_def split_def)

lemma health_keeps_percentages:
  assumes "setBatteryHealthConfidence outDict b = Some (d, b')"
  shows "Max_Capacity d = Max_Capacity outDict \<and> Current_Capacity d = Current_Capacity outDict"
  using assms
  by (auto simp add: setBatteryHealthConfidence_def Let_def split_def split: if_splits)

lemma packageBattery_stops:
  "packageBattery h g b = None \<longleftrightarrow> healthStops b"
proof -
  obtain m where m: "packageBattery h g b =
      (case setBatteryHealthConfidence m b of
         None \<Rightarrow> None
       | Some (mutDict', b') \<Rightarrow>
           Some (mutDict'\<lparr>Name := Some (case name b of Some n \<Rightarrow> n | None \<Rightarrow> ''Unnamed'')\<rparr>, b'))"
    unfolding packageBattery_def Let_def split_def by blast
  show ?thesis
    unfolding m using health_stops[of m b]
    by (cases "setBatteryHealthConfidence m b") auto
qed

lemma packageBattery_percentages:
  assumes "packageBattery h g b = Some (d, b')"
  shows "Max_Capacity d = (if maxCap b = 0 then 0 else 100)
       \<and> Current_Capacity d = spec_current_percent h b"
proof -
  from assms obtain d0 outDict where
    s: "setBatteryHealthConfidence outDict b = Some (d0, b')"
    and o: "Max_Capacity outDict = fst (capacityPercentages h b)"
           "Current_Capacity outDict = snd (capacityPercentages h b)"
    and d: "d = d0\<lparr>Name := Some (case name b of Some n \<Rightarrow> n | None \<Rightarrow> ''Unnamed'')\<rparr>"
    unfolding packageBattery_def Let_def split_def
    by (auto split: option.splits)
  from health_keeps_percentages[OF s] o d show ?thesis
    by (simp add: capacityPercentages_eq)
qed

lemma packageBatteryInfo_returns:
  "list_all (\<lambda>b. \<not> healthStops b) batts \<Longrightarrow> packageBatteryInfo h g batts \<noteq> None"
proof (induction batts)
  case Nil
  show ?case by simp
next
  case (Cons b batts)
  then have "packageBattery h g b \<noteq> None" "packageBatteryInfo h g batts \<noteq> None"
    by (simp_all add: packageBattery_stops)
  then show ?case by (auto split: option.splits)
qed

lemma packageBatteryInfo_nth:
  assumes "packageBatteryInfo h g batts = Some (ret, batts')" and "i < length batts"
  shows "length ret = length batts \<and> length batts' = length batts
       \<and> (\<exists>d. ret ! i = Some d \<and> packageBattery h g (batts ! i) = Some (d, batts' ! i))"
  using assms
proof (induction batts arbitrary: ret batts' i)
  case Nil
  then show ?case by simp
next
  case (Cons b batts)
  from Cons.prems(1) obtain d b' ret0 batts0 where
    p: "packageBattery h g b = Some (d, b')"
    and r: "packageBatteryInfo h g batts = Some (ret0, batts0)"
    and e: "ret = Some d # ret0" "batts' = b' # batts0"
    by (auto split: option.splits)
  have len: "length ret0 = length batts \<and> length batts0 = length batts"
  proof (cases batts)
    case Nil with r show ?thesis by simp
  next
    case (Cons c cs)
    then have "0 < length batts" by simp
    from Cons.IH[OF r this] show ?thesis by simp
  qed
  show ?case
  proof (cases i)
    case 0
    with p e len show ?thesis by simp
  next
    case (Suc j)
    with Cons.prems(2) have "j < length batts" by simp
    from Cons.IH[OF r this] Suc e show ?thesis by simp
  qed
qed

text \<open>
  C6. Wherever \<^verbatim>\<open>_packageBatteryInfo\<close> returns (it does for every list without a battery
  at which the health check stops), the dictionary it builds for battery \<open>i\<close> carries:
  \<open>Max_Capacity\<close> 0 and \<open>Current_Capacity\<close> 0 when \<open>maxCap\<close> is 0; otherwise
  \<open>Max_Capacity\<close> 100 and as \<open>Current_Capacity\<close> the exact quotient
  \<open>currentCap * 100 / maxCap\<close> rounded to the nearest integer, halves away from zero, with
  99 in place of 100 while the battery is charging. Where the rounded quotient is no
  \<^verbatim>\<open>int\<close> the number is the host's result of the conversion, with the same replacement.
\<close>

theorem published_capacity_percentages:
  assumes "list_all (\<lambda>b. \<not> healthStops b) batts"
  shows "\<exists>ret batts'. packageBatteryInfo h g batts = Some (ret, batts')
          \<and> length ret = length batts
          \<and> (\<forall>i < length batts. \<exists>d. ret ! i = Some d
                \<and> Max_Capacity d = (if maxCap (batts ! i) = 0 then 0 else 100)
                \<and> Current_Capacity d = spec_current_percent h (batts ! i)
                \<and> (maxCap (batts ! i) = 0 \<longrightarrow> Current_Capacity d = 0)
                \<and> (maxCap (batts ! i) \<noteq> 0 \<and> in_int32 (spec_percent (batts ! i)) \<longrightarrow>
                     Current_Capacity d =
                       (if spec_percent (batts ! i) = 100 \<and> isCharging (batts ! i) then 99
                        else word_of_int (spec_percent (batts ! i)))))"
proof -
  from packageBatteryInfo_returns[OF assms] obtain ret batts'
    where r: "packageBatteryInfo h g batts = Some (ret, batts')" by fastforce
  have "\<exists>d. ret ! i = Some d
                \<and> Max_Capacity d = (if maxCap (batts ! i) = 0 then 0 else 100)
                \<and> Current_Capacity d = spec_current_percent h (batts ! i)
                \<and> (maxCap (batts ! i) = 0 \<longrightarrow> Current_Capacity d = 0)
                \<and> (maxCap (batts ! i) \<noteq> 0 \<and> in_int32 (spec_percent (batts ! i)) \<longrightarrow>
                     Current_Capacity d =
                       (if spec_percent (batts ! i) = 100 \<and> isCharging (batts ! i) then 99
                        else word_of_int (spec_percent (batts ! i))))"
    if i: "i < length batts" for i
  proof -
    from packageBatteryInfo_nth[OF r i] obtain d where
      d: "ret ! i = Some d" "packageBattery h g (batts ! i) = Some (d, batts' ! i)" by blast
    note pc = packageBattery_percentages[OF d(2)]
    have "Current_Capacity d =
            (if spec_percent (batts ! i) = 100 \<and> isCharging (batts ! i) then 99
             else word_of_int (spec_percent (batts ! i)))"
      if "maxCap (batts ! i) \<noteq> 0" "in_int32 (spec_percent (batts ! i))"
      using pc that int32_of_int_eq_100[OF that(2)]
      by (simp add: spec_current_percent_def Let_def)
    moreover have "Current_Capacity d = 0" if "maxCap (batts ! i) = 0"
      using pc that by (simp add: spec_current_percent_def)
    ultimately show ?thesis using d(1) pc by blast
  qed
  moreover have "length ret = length batts"
  proof (cases batts)
    case Nil with r show ?thesis by simp
  next
    case (Cons c cs)
    then have "0 < length batts" by simp
    from packageBatteryInfo_nth[OF r this] show ?thesis by simp
  qed
  ultimately show ?thesis using r by blast
qed

text \<open>
  99 of 100 while charging is published as 99, without the replacement; 100 of 100 rounds
  to 100 and is published as 99 while charging; without a maximum capacity both are 0.
\<close>

theorem published_capacity_percentages_witness:
  "list_all (\<lambda>b. \<not> healthStops b) [nearly_full_battery, full_battery, demo_battery\<lparr>maxCap := 0\<rparr>]
   \<and> spec_percent nearly_full_battery = 99 \<and> spec_percent full_battery = 100
   \<and> map (map_option (\<lambda>d. (Max_Capacity d, Current_Capacity d)))
        (fst (the (packageBatteryInfo demo_host initial_globals
           [nearly_full_battery, full_battery, demo_battery\<lparr>maxCap := 0\<rparr>])))
      = [Some (100, 99), Some (100, 99), Some (0, 0)]"
proof -
  let ?batts = "[nearly_full_battery, full_battery, demo_battery\<lparr>maxCap := 0\<rparr>]"
  have a: "list_all (\<lambda>b. \<not> healthStops b) ?batts"
    by (simp add: healthStops_def nearly_full_battery_def full_battery_def charging_battery_def
          demo_battery_def batteryHas_def kIOPMPSErrorConditionKey_def)
  have p: "spec_percent nearly_full_battery = 99" "spec_percent full_battery = 100"
    by code_simp+
  have c: "spec_current_percent demo_host nearly_full_battery = 99"
    "spec_current_percent demo_host full_battery = 99"
    using p by (simp_all add: spec_current_percent_def in_int32_def Let_def
          nearly_full_battery_def full_battery_def charging_battery_def demo_battery_def)
  have m: "maxCap nearly_full_battery = 100" "maxCap full_battery = 100"
    by (simp_all add: nearly_full_battery_def full_battery_def)
  from published_capacity_percentages[OF a, of demo_host initial_globals]
  obtain ret batts' where
    r: "packageBatteryInfo demo_host initial_globals ?batts = Some (ret, batts')"
    and l: "length ret = length ?batts"
    and f: "\<forall>i < length ?batts. \<exists>d. ret ! i = Some d
                \<and> Max_Capacity d = (if maxCap (?batts ! i) = 0 then 0 else 100)
                \<and> Current_Capacity d = spec_current_percent demo_host (?batts ! i)
                \<and> (maxCap (?batts ! i) = 0 \<longrightarrow> Current_Capacity d = 0)
                \<and> (maxCap (?batts ! i) \<noteq> 0 \<and> in_int32 (spec_percent (?batts ! i)) \<longrightarrow>
                     Current_Capacity d =
                       (if spec_percent (?batts ! i) = 100 \<and> isCharging (?batts ! i) then 99
                        else word_of_int (spec_percent (?batts ! i))))"
    by blast
  have e0: "map_option (\<lambda>d. (Max_Capacity d, Current_Capacity d)) (ret ! 0) = Some (100, 99)"
    using f[rule_format, of 0] c m by auto
  have e1: "map_option (\<lambda>d. (Max_Capacity d, Current_Capacity d)) (ret ! 1) = Some (100, 99)"
    using f[rule_format, of 1] c m by auto
  have e2: "map_option (\<lambda>d. (Max_Capacity d, Current_Capacity d)) (ret ! 2) = Some (0, 0)"
    using f[rule_format, of 2] by auto
  have l3: "length ret = 3" using l by simp
  then obtain x y z where ret: "ret = [x, y, z]"
    by (auto simp add: numeral_3_eq_3 length_Suc_conv)
  have "map (map_option (\<lambda>d. (Max_Capacity d, Current_Capacity d))) ret
      = [Some (100, 99), Some (100, 99), Some (0, 0)]"
    using e0 e1 e2 unfolding ret by simp
  with a p r show ?thesis by (simp del: packageBatteryInfo.simps)
qed

section \<open>The publisher\<close>

subsection \<open>The publishing loop\<close>



lemma length_spec_retained: "length (spec_retained result old) = length old"
  by (simp add: spec_retained_def)





subsection \<open>What a run does not read\<close>



















subsection \<open>The run\<close>







section \<open>The suppression window\<close>

lemma wake_deadline_later:
  assumes t: "valid_clock t" and s: "0 < sint (secs :: int32)"
  shows "\<exists>u. dadd (Finite t) (i2d secs) = Finite u \<and> t < u"
proof -
  define y :: rat where "y = t + of_int (sint secs)"
  have s1: "(1 :: rat) \<le> of_int (sint secs)"
  proof -
    have "1 \<le> sint secs" using s by simp
    then have "(of_int 1 :: rat) \<le> of_int (sint secs)" by (simp only: of_int_le_iff)
    then show ?thesis by (simp del: of_int_sint)
  qed
  have s2: "(of_int (sint secs) :: rat) \<le> 2 ^ 31"
  proof -
    have "sint secs \<le> 2 ^ 31" using sint_int32_bounds(2)[of secs] by simp
    then have "(of_int (sint secs) :: rat) \<le> of_int (2 ^ 31)" by (simp only: of_int_le_iff)
    then show ?thesis by (simp del: of_int_sint)
  qed
  have y: "0 < y" "y \<le> 2 ^ 52 + 2 ^ 31" "t + 1 \<le> y"
    using t s1 s2 by (simp_all add: y_def valid_clock_def)
  have "\<bar>fl y - y\<bar> \<le> y / 2 ^ 53" using fl_error[of y] y(1) by simp
  moreover have "y / 2 ^ 53 < 1" using y(2) by simp
  ultimately have "t < fl y" using y(3) by linarith
  then show ?thesis by (simp only: i2d_exact dadd.simps y_def) blast
qed

lemma discontinuity_consistent:
  assumes "valid_clock t" and "positiveWakeSecs b"
      and "timerConsistent t g"
  shows "timerConsistent t (discontinuityOccurred t b g)"
proof (cases b)
  case Nil
  with assms(3) show ?thesis by (simp add: discontinuityOccurred_def)
next
  case (Cons b0 bs)
  with assms(2) have "0 < sint (invalidWakeSecs b0)" by (simp add: positiveWakeSecs_def)
  from wake_deadline_later[OF assms(1) this]
  obtain u where "dadd (Finite t) (i2d (invalidWakeSecs b0)) = Finite u" "t < u" by blast
  with Cons show ?thesis
    by (simp add: discontinuityOccurred_def timerConsistent_def Let_def)
qed

lemma timerConsistent_cong:
  assumes "estimatesInvalidUntil g' = estimatesInvalidUntil g"
      and "ignoringTimeRemainingEstimates g' = ignoringTimeRemainingEstimates g"
      and "timeSettledTimer g' = timeSettledTimer g"
  shows "timerConsistent t g' = timerConsistent t g"
  using assms by (simp add: timerConsistent_def)

text \<open>A run of the pipeline changes the three timer variables as a discontinuity does, or not at all.\<close>

lemma pipeline_timer_variables:
  assumes "BatteryTimeRemainingBatteriesHaveChanged h t b g = Some (b', g')"
  obtains g1 where "g1 = g \<or> g1 = discontinuityOccurred t b g"
    and "estimatesInvalidUntil g' = estimatesInvalidUntil g1"
    and "ignoringTimeRemainingEstimates g' = ignoringTimeRemainingEstimates g1"
    and "timeSettledTimer g' = timeSettledTimer g1"
proof -
  from assms obtain b0 bs where b: "b = b0 # bs"
    by (cases b) (simp_all add: BatteryTimeRemainingBatteriesHaveChanged_def)
  define g1 where "g1 = (if lastExternal g \<noteq> externalConnected b0
                          then discontinuityOccurred t b g else g)"
  have "estimatesInvalidUntil g' = estimatesInvalidUntil g1
      \<and> ignoringTimeRemainingEstimates g' = ignoringTimeRemainingEstimates g1
      \<and> timeSettledTimer g' = timeSettledTimer g1"
    using assms unfolding b BatteryTimeRemainingBatteriesHaveChanged_def g1_def Let_def
    by (auto split: option.splits prod.splits if_splits)
  moreover have "g1 = g \<or> g1 = discontinuityOccurred t b g" by (simp add: g1_def)
  ultimately show thesis using that by blast
qed

lemma pipeline_consistent:
  assumes "BatteryTimeRemainingBatteriesHaveChanged h t b g = Some (b', g')"
      and "valid_clock t" and "positiveWakeSecs b" and "timerConsistent t g"
  shows "timerConsistent t g'"
proof -
  from pipeline_timer_variables[OF assms(1)] obtain g1
    where g1: "g1 = g \<or> g1 = discontinuityOccurred t b g"
      and eq: "estimatesInvalidUntil g' = estimatesInvalidUntil g1"
        "ignoringTimeRemainingEstimates g' = ignoringTimeRemainingEstimates g1"
        "timeSettledTimer g' = timeSettledTimer g1"
    by blast
  have "timerConsistent t g1"
    using g1 assms(4) discontinuity_consistent[OF assms(2,3,4)] by auto
  then show ?thesis by (simp only: timerConsistent_cong[OF eq])
qed

lemma reachable_consistent:
  assumes "reachable positiveWakeSecs h t g"
  shows "valid_clock t \<and> timerConsistent t g"
  using assms
proof (induction rule: reachable.induct)
  case (start t)
  then show ?case by (simp add: timerConsistent_def initial_globals_def valid_clock_def)
next
  case (pass t g t')
  then show ?case
    by (auto simp add: timerConsistent_def split: if_splits)
next
  case (discontinuity t g b)
  then show ?case by (simp add: discontinuity_consistent)
next
  case (changed t g b b' g')
  then show ?case by (simp add: pipeline_consistent)
next
  case (fire t g d b b' g')
  then have c: "timerConsistent t g" by simp
  with fire.hyps(2) have u: "estimatesInvalidUntil g = Finite d"
    by (auto simp add: timerConsistent_def split: if_splits)
  let ?g0 = "g\<lparr>timeSettledTimer := None, ignoringTimeRemainingEstimates := False\<rparr>"
  have "timerConsistent d ?g0" using u by (simp add: timerConsistent_def)
  moreover have "BatteryTimeRemainingBatteriesHaveChanged h d b ?g0 = Some (b', g')"
    using fire.hyps(6) by (simp add: timeRemainingMaybeValid_def)
  ultimately show ?case using fire.hyps(4,5) by (simp add: pipeline_consistent)
qed

text \<open>
  C4, as stated, fails: a primary battery may ask for a wait of 0 seconds. A discontinuity
  at clock reading 100 then sets the flag and the deadline 100, so the flag is true while
  the clock is not before the deadline.
\<close>

theorem ignoring_with_zero_wait_counterexample:
  "reachable anyBatteries demo_host 100
     (discontinuityOccurred 100 [demo_battery\<lparr>invalidWakeSecs := 0\<rparr>] initial_globals)
   \<and> ignoringTimeRemainingEstimates
       (discontinuityOccurred 100 [demo_battery\<lparr>invalidWakeSecs := 0\<rparr>] initial_globals)
   \<and> \<not> dlt (Finite 100) (estimatesInvalidUntil
       (discontinuityOccurred 100 [demo_battery\<lparr>invalidWakeSecs := 0\<rparr>] initial_globals))"
proof -
  have r0: "reachable anyBatteries demo_host 100 initial_globals"
    by (rule reachable.start) (simp add: valid_clock_def)
  have r1: "reachable anyBatteries demo_host 100
     (discontinuityOccurred 100 [demo_battery\<lparr>invalidWakeSecs := 0\<rparr>] initial_globals)"
    by (rule reachable.discontinuity[OF r0]) (simp add: anyBatteries_def)
  have "fl 100 = 100" using fl_of_int[of 100] by simp
  then have u: "estimatesInvalidUntil
       (discontinuityOccurred 100 [demo_battery\<lparr>invalidWakeSecs := 0\<rparr>] initial_globals)
       = Finite 100"
    by (simp add: discontinuityOccurred_def Let_def i2d_exact)
  show ?thesis using r1 u by (simp add: discontinuityOccurred_def Let_def)
qed

text \<open>
  C4, amended. In every state reachable from the initial one by the passing of time up to
  a pending deadline, discontinuities, runs of the pipeline and the firing of the timer at
  its deadline, where the primary battery's \<open>invalidWakeSecs\<close> is positive whenever it is
  read, \<open>ignoringTimeRemainingEstimates\<close> is true if and only if the clock is before
  \<open>estimatesInvalidUntil\<close>.
\<close>

theorem ignoring_iff_before_deadline:
  assumes "reachable positiveWakeSecs h t g"
  shows "ignoringTimeRemainingEstimates g \<longleftrightarrow> dlt (Finite t) (estimatesInvalidUntil g)"
  using reachable_consistent[OF assms]
  by (auto simp add: timerConsistent_def split: if_splits)

text \<open>After the wake the flag is set and 100 is before 130; after the timer it is clear.\<close>

theorem ignoring_iff_before_deadline_witness:
  "reachable positiveWakeSecs demo_host 100 after_wake
   \<and> ignoringTimeRemainingEstimates after_wake
   \<and> dlt (Finite 100) (estimatesInvalidUntil after_wake)
   \<and> reachable positiveWakeSecs demo_host 130 after_timer
   \<and> \<not> ignoringTimeRemainingEstimates after_timer
   \<and> \<not> dlt (Finite 130) (estimatesInvalidUntil after_timer)"
proof -
  have p: "positiveWakeSecs [demo_battery]"
    by (simp add: positiveWakeSecs_def demo_battery_def)
  have r0: "reachable positiveWakeSecs demo_host 100 initial_globals"
    by (rule reachable.start) (simp add: valid_clock_def)
  have r1: "reachable positiveWakeSecs demo_host 100 after_wake"
    unfolding after_wake_def by (rule reachable.discontinuity[OF r0 p])
  have i1: "ignoringTimeRemainingEstimates after_wake"
    by (simp add: after_wake_def discontinuityOccurred_def Let_def)
  have "fl 130 = 130" using fl_of_int[of 130] by simp
  then have t1: "timeSettledTimer after_wake = Some (Finite 130)"
    by (simp add: after_wake_def discontinuityOccurred_def Let_def i2d_exact demo_battery_def)
  have v: "valid_clock 130" by (simp add: valid_clock_def)
  have e: "map_option (\<lambda>r. ignoringTimeRemainingEstimates (snd r))
             (timeRemainingMaybeValid demo_host 130 [demo_battery] after_wake) = Some False"
    by code_simp
  then obtain b' where
    f: "timeRemainingMaybeValid demo_host 130 [demo_battery] after_wake = Some (b', after_timer)"
    by (auto simp add: after_timer_def)
  have r2: "reachable positiveWakeSecs demo_host 130 after_timer"
    by (rule reachable.fire[OF r1 t1 _ v p f]) simp
  have i2: "\<not> ignoringTimeRemainingEstimates after_timer" using e f by simp
  show ?thesis
    using r1 r2 i1 i2 ignoring_iff_before_deadline[OF r1] ignoring_iff_before_deadline[OF r2]
    by simp
qed

section \<open>The privileged commands\<close>

lemma ioreturn_distinct:
  "kIOReturnBadArgument \<noteq> kIOReturnSuccess"
  "kIOReturnBadArgument \<noteq> kIOReturnNotPrivileged"
  "kIOReturnNotPrivileged \<noteq> kIOReturnSuccess"
  by (simp_all add: kIOReturnBadArgument_def kIOReturnSuccess_def kIOReturnNotPrivileged_def)

lemma secure_invalid_level:
  assumes "level \<noteq> 0" and "level \<noteq> 1"
  shows "secureInflowDisable uc level = (kIOReturnSuccess, kIOReturnBadArgument, [])"
    and "secureChargeInhibit uc level = (kIOReturnSuccess, kIOReturnBadArgument, [])"
  using assms by (simp_all add: secureInflowDisable_def secureChargeInhibit_def)

lemma secure_not_privileged:
  assumes "level = 0 \<or> level = 1" and "clientHasPrivilege uc \<noteq> kIOReturnSuccess"
  shows "secureInflowDisable uc level = (kIOReturnSuccess, kIOReturnNotPrivileged, [ClientHasPrivilege])"
    and "secureChargeInhibit uc level = (kIOReturnSuccess, kIOReturnNotPrivileged, [ClientHasPrivilege])"
  using assms
  by (auto simp add: secureInflowDisable_def secureChargeInhibit_def Let_def split: option.splits bool.splits)

text \<open>
  C8. For a level other than 0 and 1, \<^verbatim>\<open>secureInflowDisable\<close> and
  \<^verbatim>\<open>secureChargeInhibit\<close> hand the caller the bad-argument status in \<^verbatim>\<open>*return_code\<close>
  (the method itself returns success) and make no call at all, so neither
  \<^verbatim>\<open>disableInflow\<close> nor \<^verbatim>\<open>inhibitCharging\<close> is invoked, with the level or with a
  clamped one. The bad-argument status differs from success and from not-privileged.
\<close>

theorem invalid_level_bad_argument:
  assumes "level \<noteq> 0" and "level \<noteq> 1"
  shows "secureInflowDisable uc level = (kIOReturnSuccess, kIOReturnBadArgument, [])
       \<and> secureChargeInhibit uc level = (kIOReturnSuccess, kIOReturnBadArgument, [])
       \<and> \<not> list_ex controlSurfaceCall (snd (snd (secureInflowDisable uc level)))
       \<and> \<not> list_ex controlSurfaceCall (snd (snd (secureChargeInhibit uc level)))
       \<and> kIOReturnBadArgument \<noteq> kIOReturnSuccess
       \<and> kIOReturnBadArgument \<noteq> kIOReturnNotPrivileged"
  using assms by (simp add: secure_invalid_level ioreturn_distinct)

theorem invalid_level_bad_argument_witness:
  "(2 :: int32) \<noteq> 0 \<and> (2 :: int32) \<noteq> 1
   \<and> secureInflowDisable (demo_client\<lparr>clientHasPrivilege := kIOReturnSuccess\<rparr>) 2
       = (kIOReturnSuccess, kIOReturnBadArgument, [])
   \<and> secureChargeInhibit (demo_client\<lparr>clientHasPrivilege := kIOReturnSuccess\<rparr>) 2
       = (kIOReturnSuccess, kIOReturnBadArgument, [])"
  using invalid_level_bad_argument [of 2 "demo_client\<lparr>clientHasPrivilege := kIOReturnSuccess\<rparr>"]
  by simp

text \<open>
  C10. In both methods the level is validated before the privilege is asked for: with a
  level other than 0 and 1 the caller gets the bad-argument status whatever privilege
  they hold, and \<^verbatim>\<open>clientHasPrivilege\<close> is not called; with a valid level a caller without
  the administrator privilege gets the not-privileged status, and the control surface is
  not invoked.
\<close>

theorem validation_precedes_privilege:
  "(level \<noteq> 0 \<and> level \<noteq> 1 \<longrightarrow>
      secureInflowDisable uc level = (kIOReturnSuccess, kIOReturnBadArgument, [])
      \<and> secureChargeInhibit uc level = (kIOReturnSuccess, kIOReturnBadArgument, [])
      \<and> ClientHasPrivilege \<notin> set (snd (snd (secureInflowDisable uc level)))
      \<and> ClientHasPrivilege \<notin> set (snd (snd (secureChargeInhibit uc level))))
   \<and> ((level = 0 \<or> level = 1) \<and> clientHasPrivilege uc \<noteq> kIOReturnSuccess \<longrightarrow>
      secureInflowDisable uc level
        = (kIOReturnSuccess, kIOReturnNotPrivileged, [ClientHasPrivilege])
      \<and> secureChargeInhibit uc level
        = (kIOReturnSuccess, kIOReturnNotPrivileged, [ClientHasPrivilege])
      \<and> \<not> list_ex controlSurfaceCall (snd (snd (secureInflowDisable uc level)))
      \<and> \<not> list_ex controlSurfaceCall (snd (snd (secureChargeInhibit uc level))))"
  by (auto simp add: secure_invalid_level secure_not_privileged)

theorem validation_precedes_privilege_witness:
  "secureInflowDisable (demo_client\<lparr>clientHasPrivilege := kIOReturnSuccess\<rparr>) 2
     = (kIOReturnSuccess, kIOReturnBadArgument, [])
   \<and> secureInflowDisable demo_client 2 = (kIOReturnSuccess, kIOReturnBadArgument, [])
   \<and> clientHasPrivilege demo_client \<noteq> kIOReturnSuccess
   \<and> secureInflowDisable demo_client 1
     = (kIOReturnSuccess, kIOReturnNotPrivileged, [ClientHasPrivilege])
   \<and> secureChargeInhibit demo_client 0
     = (kIOReturnSuccess, kIOReturnNotPrivileged, [ClientHasPrivilege])"
  using validation_precedes_privilege [of 2 "demo_client\<lparr>clientHasPrivilege := kIOReturnSuccess\<rparr>"]
    validation_precedes_privilege [of 2 demo_client]
    validation_precedes_privilege [of 1 demo_client]
    validation_precedes_privilege [of 0 demo_client]
  by (simp add: demo_client_def ioreturn_distinct)

text \<open>What a privileged caller with a valid level gets: the owner's own status.\<close>

lemma secure_privileged:
  assumes "level = 0 \<or> level = 1" and "clientHasPrivilege uc = kIOReturnSuccess" and "fOwner uc = Some owner"
  shows "secureInflowDisable uc level = (kIOReturnSuccess, disableInflow owner level, [ClientHasPrivilege, DisableInflow level])"
    and "secureChargeInhibit uc level = (kIOReturnSuccess, inhibitCharging owner level, [ClientHasPrivilege, InhibitCharging level])"
  using assms by (auto simp add: secureInflowDisable_def secureChargeInhibit_def Let_def)

end
